theory Spec2Isabelle
  imports Main "HOL-Library.Word" "HOL-Library.Multiset"
begin

section \<open>Core types (core/types.h)\<close>

text \<open>
  Prices, quantities, order ids, trade ids and timestamps are \<open>std::uint64_t\<close>; symbol ids
  are \<open>std::uint32_t\<close>. They are machine words here, so every \<open>+\<close> and \<open>-\<close> wraps as
  in the source and \<open>\<le>\<close> is the unsigned comparison.
\<close>

type_synonym Price = "64 word"
type_synonym Quantity = "64 word"
type_synonym OrderID = "64 word"
type_synonym SymbolID = "32 word"
type_synonym TradeID = "64 word"
type_synonym Timestamp = "64 word"

datatype Side = Buy | Sell

datatype OrderType = Market | Limit | Stop | StopLimit

datatype TimeInForce = Day | Ioc | Fok | Gtc

datatype OrderStatus = Incoming | PartiallyFilled | Filled | Cancelled | Rejected

text \<open>
  \<open>struct Order\<close>. Its two intrusive pointers \<open>next\<close>/\<open>prev\<close> are never read or written
  by the code modelled here and are left out.
\<close>

record Order =
  orderID :: OrderID
  symbolID :: SymbolID
  side :: Side
  orderType :: OrderType
  TimeInForce :: TimeInForce
  price :: Price
  quantity :: Quantity
  filledQuantity :: Quantity
  status :: OrderStatus
  timestamp :: Timestamp

text \<open>
  \<open>struct Trade\<close>. The fields \<open>price\<close>, \<open>quantity\<close> and \<open>timestamp\<close> carry the prefix
  \<open>trade_\<close> to keep them apart from the fields of \<open>Order\<close>.
\<close>

record Trade =
  trade_id :: TradeID
  buy_order_id :: OrderID
  sell_order_id :: OrderID
  symbol_id :: SymbolID
  trade_price :: Price
  trade_quantity :: Quantity
  trade_timestamp :: Timestamp
  aggressor_side :: Side

definition UINT64_MAX :: "64 word" where
  "UINT64_MAX = - 1"


section \<open>The aggregator order book (market_data/order_book.h)\<close>

text \<open>
  \<open>OrderBook<MaxLevels>\<close>: per side a \<open>std::array<Level, MaxLevels>\<close> with a live prefix
  of \<open>level_count\<close> entries and an index map from price to array position
  (\<open>std::unordered_map<Price, uint16_t>\<close>). The array is a list of length \<open>MaxLevels\<close>,
  the template parameter is an argument of the operations, and the atomics are plain
  fields: the model is the sequential behaviour of the single writer.
\<close>

record Level =
  lv_price :: Price
  lv_quantity :: Quantity
  lv_order_count :: "32 word"

record BookSide =
  levels :: "Level list"
  level_count :: "32 word"
  price_to_index :: "Price \<rightharpoonup> 16 word"

record OrderBook =
  bids :: BookSide
  asks :: BookSide
  version :: "64 word"
  best_bid :: Price
  best_ask :: Price
  best_bid_qty :: Quantity
  best_ask_qty :: Quantity

definition empty_side :: "nat \<Rightarrow> BookSide" where
  "empty_side MaxLevels =
     \<lparr>levels = replicate MaxLevels \<lparr>lv_price = 0, lv_quantity = 0, lv_order_count = 0\<rparr>,
      level_count = 0, price_to_index = Map.empty\<rparr>"

text \<open>The member initialisers of \<open>OrderBook\<close>: \<open>best_ask{UINT64_MAX}\<close>, the rest zero.\<close>

definition new_OrderBook :: "nat \<Rightarrow> OrderBook" where
  "new_OrderBook MaxLevels =
     \<lparr>bids = empty_side MaxLevels, asks = empty_side MaxLevels, version = 0,
      best_bid = 0, best_ask = UINT64_MAX, best_bid_qty = 0, best_ask_qty = 0\<rparr>"

text \<open>
  The search loop of \<open>add_level\<close>: \<open>insert_index\<close> is \<open>i\<close> at the \<open>break\<close> and the
  count when the loop runs to its end.
\<close>

function find_insert_index :: "bool \<Rightarrow> Level list \<Rightarrow> Price \<Rightarrow> nat \<Rightarrow> nat \<Rightarrow> nat" where
  "find_insert_index is_bid_side lvs p i current_count =
     (if i < current_count then
        (if is_bid_side then
           (if p > lv_price (lvs ! i) then i
            else find_insert_index is_bid_side lvs p (i + 1) current_count)
         else
           (if p < lv_price (lvs ! i) then i
            else find_insert_index is_bid_side lvs p (i + 1) current_count))
      else i)"
  by pat_completeness auto
termination
  by (relation "measure (\<lambda>(b, lvs, p, i, n). n - i)") auto

declare find_insert_index.simps [simp del]

text \<open>
  The shift loop of \<open>add_level\<close>, from \<open>i = current_count\<close> down to \<open>insert_index + 1\<close>:
  \<open>levels[i] = levels[i - 1]; price_to_index[levels[i].price] = i\<close>. The index is stored
  as \<open>uint16_t\<close>.
\<close>

function shift_up :: "BookSide \<Rightarrow> nat \<Rightarrow> nat \<Rightarrow> BookSide" where
  "shift_up bs i insert_index =
     (if i > insert_index then
        (let moved = levels bs ! (i - 1) in
         shift_up (bs\<lparr>levels := (levels bs)[i := moved],
                      price_to_index := (price_to_index bs)(lv_price moved \<mapsto> of_nat i)\<rparr>)
                  (i - 1) insert_index)
      else bs)"
  by pat_completeness auto
termination
  by (relation "measure (\<lambda>(bs, i, k). i - k)") auto

declare shift_up.simps [simp del]

definition add_level :: "nat \<Rightarrow> bool \<Rightarrow> BookSide \<Rightarrow> Price \<Rightarrow> Quantity \<Rightarrow> BookSide" where
  "add_level MaxLevels is_bid_side book_side p q =
     (let current_count = unat (level_count book_side) in
      if current_count \<ge> MaxLevels then book_side
      else
        (let insert_index = find_insert_index is_bid_side (levels book_side) p 0 current_count;
             shifted = shift_up book_side current_count insert_index
         in shifted\<lparr>levels := (levels shifted)
                        [insert_index := \<lparr>lv_price = p, lv_quantity = q, lv_order_count = 1\<rparr>],
                    price_to_index := (price_to_index shifted)(p \<mapsto> of_nat insert_index),
                    level_count := level_count book_side + 1\<rparr>))"

text \<open>
  The shift loop of \<open>remove_level\<close>, from \<open>i = index\<close> while \<open>i < current_count - 1\<close>
  (the bound is computed in \<open>uint32_t\<close>; the loop is entered only when
  \<open>index < current_count\<close>, so it does not wrap).
\<close>

function shift_down :: "BookSide \<Rightarrow> nat \<Rightarrow> nat \<Rightarrow> BookSide" where
  "shift_down bs i bound =
     (if i < bound then
        (let moved = levels bs ! (i + 1) in
         shift_down (bs\<lparr>levels := (levels bs)[i := moved],
                        price_to_index := (price_to_index bs)(lv_price moved \<mapsto> of_nat i)\<rparr>)
                    (i + 1) bound)
      else bs)"
  by pat_completeness auto
termination
  by (relation "measure (\<lambda>(bs, i, n). n - i)") auto

declare shift_down.simps [simp del]

definition remove_level :: "BookSide \<Rightarrow> 16 word \<Rightarrow> Price \<Rightarrow> BookSide" where
  "remove_level book_side index p =
     (let current_count = unat (level_count book_side) in
      if unat index \<ge> current_count then book_side
      else
        (let shifted = shift_down book_side (unat index) (current_count - 1)
         in shifted\<lparr>price_to_index := (price_to_index shifted)(p := None),
                    level_count := level_count book_side - 1\<rparr>))"

definition update_side :: "nat \<Rightarrow> bool \<Rightarrow> BookSide \<Rightarrow> Price \<Rightarrow> Quantity \<Rightarrow> BookSide" where
  "update_side MaxLevels is_bid_side book_side p q =
     (case price_to_index book_side p of
        Some index \<Rightarrow>
          (if q = 0 then remove_level book_side index p
           else book_side\<lparr>levels := (levels book_side)
                  [unat index := (levels book_side ! unat index)\<lparr>lv_quantity := q\<rparr>]\<rparr>)
      | None \<Rightarrow>
          (if q > 0 then add_level MaxLevels is_bid_side book_side p q else book_side))"

definition update_best_prices :: "OrderBook \<Rightarrow> OrderBook" where
  "update_best_prices b =
     (let b1 = (if level_count (bids b) > 0
                then b\<lparr>best_bid := lv_price (levels (bids b) ! 0),
                       best_bid_qty := lv_quantity (levels (bids b) ! 0)\<rparr>
                else b\<lparr>best_bid := 0, best_bid_qty := 0\<rparr>)
      in (if level_count (asks b1) > 0
          then b1\<lparr>best_ask := lv_price (levels (asks b1) ! 0),
                  best_ask_qty := lv_quantity (levels (asks b1) ! 0)\<rparr>
          else b1\<lparr>best_ask := UINT64_MAX, best_ask_qty := 0\<rparr>))"

text \<open>
  \<open>update_level\<close>: the block under the side's lock (\<open>update_side\<close> above), then
  \<open>update_best_prices()\<close> and \<open>version.fetch_add(1)\<close>, both run on every call.
\<close>

definition update_level :: "nat \<Rightarrow> OrderBook \<Rightarrow> Side \<Rightarrow> Price \<Rightarrow> Quantity \<Rightarrow> OrderBook" where
  "update_level MaxLevels b sd p q =
     (let b1 = (if sd = Buy then b\<lparr>bids := update_side MaxLevels True (bids b) p q\<rparr>
                else b\<lparr>asks := update_side MaxLevels False (asks b) p q\<rparr>);
          b2 = update_best_prices b1
      in b2\<lparr>version := version b2 + 1\<rparr>)"

definition get_best_bid :: "OrderBook \<Rightarrow> Price" where
  "get_best_bid b = best_bid b"

definition get_best_ask :: "OrderBook \<Rightarrow> Price" where
  "get_best_ask b = (let ask = best_ask b in if ask = UINT64_MAX then 0 else ask)"


section \<open>The token bucket (risk/risk_manager.h)\<close>

record RateLimiter =
  tokens :: "32 word"
  last_refill_time :: "64 word"
  refill_rate :: "32 word"
  bucket_size :: "32 word"

text \<open>
  The two constructors. \<open>tokens\<close> has the member initialiser \<open>tokens{1000}\<close> and neither
  constructor assigns it; \<open>now\<close> is the hardware timestamp read by the constructor.
\<close>

definition RateLimiter_default :: "Timestamp \<Rightarrow> RateLimiter" where
  "RateLimiter_default now =
     \<lparr>tokens = 1000, last_refill_time = now, refill_rate = 1000, bucket_size = 1000\<rparr>"

definition RateLimiter_init :: "32 word \<Rightarrow> 32 word \<Rightarrow> Timestamp \<Rightarrow> RateLimiter" where
  "RateLimiter_init rate sz now =
     \<lparr>tokens = 1000, last_refill_time = now, refill_rate = rate, bucket_size = sz\<rparr>"

text \<open>
  \<open>TimestampManager::tsc_to_nanoseconds\<close>: \<open>(tsc * 1000000000ULL) / freq\<close> in 64 bits. The
  division traps when the calibrated frequency is zero; that is \<open>None\<close>.
\<close>

definition tsc_to_nanoseconds :: "64 word \<Rightarrow> 64 word \<Rightarrow> 64 word option" where
  "tsc_to_nanoseconds freq tsc =
     (if freq = 0 then None else Some ((tsc * 1000000000) div freq))"

text \<open>
  The refill half of \<open>check_rate_limit\<close>, from the elapsed nanoseconds on. The product
  is a 64-bit one, the cast to \<open>std::uint32_t\<close> keeps the low 32 bits, and
  \<open>current_tokens + tokens_to_add\<close> is a 32-bit sum.
\<close>

definition refill :: "RateLimiter \<Rightarrow> Timestamp \<Rightarrow> 64 word \<Rightarrow> RateLimiter" where
  "refill limiter current_time elapsed_ns =
     (let tokens_to_add =
            (ucast ((elapsed_ns * ucast (refill_rate limiter)) div 1000000000) :: 32 word)
      in if tokens_to_add > 0 then
           (let current_tokens = tokens limiter;
                new_tokens = min (current_tokens + tokens_to_add) (bucket_size limiter)
            in limiter\<lparr>tokens := new_tokens, last_refill_time := current_time\<rparr>)
         else limiter)"

text \<open>
  The consume half: the compare-and-swap loop run by one thread takes one token when
  there is one.
\<close>

definition consume :: "RateLimiter \<Rightarrow> bool \<times> RateLimiter" where
  "consume limiter =
     (let current_tokens = tokens limiter
      in if current_tokens > 0 then (True, limiter\<lparr>tokens := current_tokens - 1\<rparr>)
         else (False, limiter))"

text \<open>
  \<open>check_rate_limit\<close>. \<open>freq\<close> is the calibrated TSC frequency and \<open>current_time\<close> the
  hardware timestamp read at entry.
\<close>

definition check_rate_limit ::
    "64 word \<Rightarrow> Timestamp \<Rightarrow> RateLimiter \<Rightarrow> (bool \<times> RateLimiter) option" where
  "check_rate_limit freq current_time limiter =
     (let last_time = last_refill_time limiter in
      if current_time > last_time then
        (case tsc_to_nanoseconds freq (current_time - last_time) of
           None \<Rightarrow> None
         | Some elapsed_ns \<Rightarrow> Some (consume (refill limiter current_time elapsed_ns)))
      else Some (consume limiter))"



section \<open>Object pools (core/memory.h)\<close>

text \<open>
  \<open>LockFreeMemoryPool<T, PoolSize>\<close>: a free list threaded through a fixed array of
  nodes. A node is named by its index in the array; \<open>acquire\<close> pops the head of the free
  list and \<open>release\<close> pushes the node back at the head. The data of a node stays in the
  array when the node is released.
\<close>

record Pool =
  free_list :: "nat list"
  allocated_count :: "64 word"

definition new_Pool :: "nat \<Rightarrow> Pool" where
  "new_Pool PoolSize = \<lparr>free_list = [0..<PoolSize], allocated_count = 0\<rparr>"

definition acquire :: "Pool \<Rightarrow> nat option \<times> Pool" where
  "acquire pool =
     (case free_list pool of
        [] \<Rightarrow> (None, pool)
      | h # rest \<Rightarrow> (Some h, pool\<lparr>free_list := rest, allocated_count := allocated_count pool + 1\<rparr>))"

definition release :: "Pool \<Rightarrow> nat \<Rightarrow> Pool" where
  "release pool node =
     pool\<lparr>free_list := node # free_list pool, allocated_count := allocated_count pool - 1\<rparr>"


section \<open>The matching engine (matching/matching_engine.h)\<close>

text \<open>
  An \<open>OrderEntry*\<close> is the index of its node in \<open>order_pool\<close>; \<open>order_slots\<close> is the
  array of the pool, so \<open>entry->order\<close> is \<open>order_slots s entry\<close>. A \<open>PriceLevel\<close> holds
  the chain \<open>first_order \<dots> last_order\<close> as the list \<open>entries\<close> of these indices, head
  first; \<open>order_lookup\<close> maps an order id to the index of its entry. The two
  \<open>std::map<Price, PriceLevel>\<close> are association lists kept in ascending order of the
  key, so \<open>begin()\<close> is the head of the list and \<open>rbegin()\<close> its last element.
\<close>

record PriceLevel =
  level_price :: Price
  total_quantity :: Quantity
  order_count :: "32 word"
  entries :: "nat list"

record MatchingEngine =
  bid_levels :: "(Price \<times> PriceLevel) list"
  ask_levels :: "(Price \<times> PriceLevel) list"
  order_lookup :: "OrderID \<rightharpoonup> nat"
  order_pool :: Pool
  order_slots :: "nat \<Rightarrow> Order"
  trade_pool :: Pool
  total_orders_processed :: "64 word"
  total_trades_generated :: "64 word"
  total_volume_matched :: "64 word"
  trade_id_generator :: TradeID

record MatchResult =
  trades :: "Trade list"
  fully_matched :: bool
  remaining_order :: "nat option"

definition new_PriceLevel :: "Price \<Rightarrow> PriceLevel" where
  "new_PriceLevel p = \<lparr>level_price = p, total_quantity = 0, order_count = 0, entries = []\<rparr>"

text \<open>\<open>PriceLevel::add_order\<close> appends at the tail; \<open>ord\<close> is \<open>entry->order\<close>.\<close>

definition add_order :: "PriceLevel \<Rightarrow> nat \<Rightarrow> Order \<Rightarrow> PriceLevel" where
  "add_order level entry ord =
     level\<lparr>entries := entries level @ [entry],
           total_quantity := total_quantity level + quantity ord,
           order_count := order_count level + 1\<rparr>"

text \<open>\<open>PriceLevel::remove_order\<close> unlinks the entry from the chain.\<close>

definition remove_order :: "PriceLevel \<Rightarrow> nat \<Rightarrow> Order \<Rightarrow> PriceLevel" where
  "remove_order level entry ord =
     level\<lparr>entries := remove1 entry (entries level),
           total_quantity := total_quantity level - quantity ord,
           order_count := order_count level - 1\<rparr>"

definition level_empty :: "PriceLevel \<Rightarrow> bool" where
  "level_empty level = (order_count level = 0)"

text \<open>The operations of \<open>std::map\<close> that the engine uses.\<close>

definition map_find :: "(Price \<times> 'a) list \<Rightarrow> Price \<Rightarrow> 'a option" where
  "map_find m k = map_of m k"

fun map_put :: "Price \<Rightarrow> 'a \<Rightarrow> (Price \<times> 'a) list \<Rightarrow> (Price \<times> 'a) list" where
  "map_put k v [] = [(k, v)]"
| "map_put k v ((k', v') # m) =
     (if k < k' then (k, v) # (k', v') # m
      else if k = k' then (k, v) # m
      else (k', v') # map_put k v m)"

definition map_erase :: "Price \<Rightarrow> (Price \<times> 'a) list \<Rightarrow> (Price \<times> 'a) list" where
  "map_erase k m = filter (\<lambda>kv. fst kv \<noteq> k) m"

definition erase_at :: "nat \<Rightarrow> 'a list \<Rightarrow> 'a list" where
  "erase_at i xs = take i xs @ drop (Suc i) xs"

definition new_MatchingEngine :: "nat \<Rightarrow> nat \<Rightarrow> MatchingEngine" where
  "new_MatchingEngine order_pool_size trade_pool_size =
     \<lparr>bid_levels = [], ask_levels = [], order_lookup = Map.empty,
      order_pool = new_Pool order_pool_size,
      order_slots = (\<lambda>_. \<lparr>orderID = 0, symbolID = 0, side = Buy, orderType = Market,
                          TimeInForce = Day, price = 0, quantity = 0, filledQuantity = 0,
                          status = Incoming, timestamp = 0\<rparr>),
      trade_pool = new_Pool trade_pool_size,
      total_orders_processed = 0, total_trades_generated = 0, total_volume_matched = 0,
      trade_id_generator = 1\<rparr>"

definition determine_aggressor_side :: "Order \<Rightarrow> Order \<Rightarrow> Side" where
  "determine_aggressor_side buy_order sell_order =
     (if timestamp buy_order > timestamp sell_order then Buy else Sell)"

text \<open>
  \<open>create_trade\<close>. The hardware timestamp is an input of the engine: \<open>clock\<close> gives the
  reading taken while the trade with a given id is built. The trade is returned by
  value; \<open>None\<close> is the null pointer of an exhausted trade pool.
\<close>

definition create_trade ::
    "(TradeID \<Rightarrow> Timestamp) \<Rightarrow> MatchingEngine \<Rightarrow> Order \<Rightarrow> Order \<Rightarrow> Price \<Rightarrow> Quantity
      \<Rightarrow> Trade option \<times> MatchingEngine" where
  "create_trade clock s buy_order sell_order tp trade_qty =
     (case acquire (trade_pool s) of
        (None, pool) \<Rightarrow> (None, s)
      | (Some node, pool) \<Rightarrow>
          (Some \<lparr>trade_id = trade_id_generator s,
                 buy_order_id = orderID buy_order,
                 sell_order_id = orderID sell_order,
                 symbol_id = symbolID buy_order,
                 trade_price = tp,
                 trade_quantity = trade_qty,
                 trade_timestamp = clock (trade_id_generator s),
                 aggressor_side = determine_aggressor_side buy_order sell_order\<rparr>,
           s\<lparr>trade_pool := pool,
             trade_id_generator := trade_id_generator s + 1,
             total_trades_generated := total_trades_generated s + 1\<rparr>))"

text \<open>
  The body of the inner \<open>while\<close> loop for one resting entry. The two copies in
  \<open>match_buy_order\<close> and \<open>match_sell_order\<close> differ only in the order of the first two
  arguments of \<open>create_trade\<close>; \<open>sd\<close> is the side of the incoming order. The loop state
  is the engine, the level being walked, \<open>remaining_qty\<close> and \<open>result.trades\<close>.
\<close>

definition match_entry ::
    "Side \<Rightarrow> (TradeID \<Rightarrow> Timestamp) \<Rightarrow> Order \<Rightarrow> Price \<Rightarrow> nat
      \<Rightarrow> MatchingEngine \<times> PriceLevel \<times> Quantity \<times> Trade list
      \<Rightarrow> MatchingEngine \<times> PriceLevel \<times> Quantity \<times> Trade list" where
  "match_entry sd clock working_order lp entry st =
     (case st of (s, level, remaining_qty, trs) \<Rightarrow>
        (let resting = order_slots s entry;
             trade_qty = min remaining_qty (quantity resting)
         in case (if sd = Buy then create_trade clock s working_order resting lp trade_qty
                  else create_trade clock s resting working_order lp trade_qty) of
              (None, s1) \<Rightarrow> st
            | (Some trade, s1) \<Rightarrow>
                (let hit = resting\<lparr>quantity := quantity resting - trade_qty,
                                   filledQuantity := filledQuantity resting + trade_qty\<rparr>;
                     level1 = level\<lparr>total_quantity := total_quantity level - trade_qty\<rparr>;
                     s2 = s1\<lparr>total_volume_matched := total_volume_matched s1 + trade_qty\<rparr>
                 in if quantity hit = 0 then
                      (let done = hit\<lparr>status := Filled\<rparr>
                       in (s2\<lparr>order_slots := (order_slots s2)(entry := done),
                              order_lookup := (order_lookup s2)(orderID done := None),
                              order_pool := release (order_pool s2) entry\<rparr>,
                           remove_order level1 entry done,
                           remaining_qty - trade_qty, trs @ [trade]))
                    else
                      (s2\<lparr>order_slots :=
                             (order_slots s2)(entry := hit\<lparr>status := PartiallyFilled\<rparr>)\<rparr>,
                       level1, remaining_qty - trade_qty, trs @ [trade]))))"

text \<open>
  The inner loop: it walks the chain as it stood at \<open>level->first_order\<close> (the next
  pointer is saved before an entry is unlinked) while \<open>remaining_qty > 0\<close>.
\<close>

fun match_level_loop ::
    "Side \<Rightarrow> (TradeID \<Rightarrow> Timestamp) \<Rightarrow> Order \<Rightarrow> Price \<Rightarrow> nat list
      \<Rightarrow> MatchingEngine \<times> PriceLevel \<times> Quantity \<times> Trade list
      \<Rightarrow> MatchingEngine \<times> PriceLevel \<times> Quantity \<times> Trade list" where
  "match_level_loop sd clock working_order lp [] st = st"
| "match_level_loop sd clock working_order lp (entry # rest) st =
     (if fst (snd (snd st)) > 0
      then match_level_loop sd clock working_order lp rest
             (match_entry sd clock working_order lp entry st)
      else st)"

text \<open>
  The body of the outer loop at the level in position \<open>i\<close> of the opposite side
  \<open>lvls\<close>: run the inner loop, then erase the level when it is empty. The level is
  changed in place in the source; here it is written back at its position. The result
  says whether the level was erased.
\<close>

definition match_level ::
    "Side \<Rightarrow> (TradeID \<Rightarrow> Timestamp) \<Rightarrow> Order \<Rightarrow> (Price \<times> PriceLevel) list \<Rightarrow> nat
      \<Rightarrow> MatchingEngine \<times> Quantity \<times> Trade list
      \<Rightarrow> bool \<times> (Price \<times> PriceLevel) list \<times> MatchingEngine \<times> Quantity \<times> Trade list" where
  "match_level sd clock working_order lvls i st =
     (case st of (s, remaining_qty, trs) \<Rightarrow>
        (let lp = fst (lvls ! i);
             level = snd (lvls ! i)
         in case match_level_loop sd clock working_order lp (entries level)
                   (s, level, remaining_qty, trs) of
              (s1, level1, rem1, trs1) \<Rightarrow>
                (if level_empty level1 then (True, erase_at i lvls, s1, rem1, trs1)
                 else (False, lvls[i := (lp, level1)], s1, rem1, trs1))))"

lemma length_match_level:
  assumes "match_level sd clock w lvls i st = (erased, lvls', st')" and "i < length lvls"
  shows "length lvls' = (if erased then length lvls - 1 else length lvls)"
  using assms
  by (auto simp: match_level_def erase_at_def Let_def split: prod.splits if_splits)

text \<open>
  The outer loop of \<open>match_buy_order\<close>: \<open>ask_it\<close> is the position \<open>i\<close> in the ascending
  list, \<open>ask_levels.erase(ask_it)\<close> leaves the position where it is and \<open>++ask_it\<close> moves
  it on.
\<close>

function match_buy_loop ::
    "(TradeID \<Rightarrow> Timestamp) \<Rightarrow> Order \<Rightarrow> nat \<Rightarrow> MatchingEngine \<times> Quantity \<times> Trade list
      \<Rightarrow> MatchingEngine \<times> Quantity \<times> Trade list" where
  "match_buy_loop clock buy_order i st =
     (case st of (s, remaining_qty, trs) \<Rightarrow>
        (if i < length (ask_levels s) \<and> fst (ask_levels s ! i) \<le> price buy_order
              \<and> remaining_qty > 0
         then
           (case match_level Buy clock buy_order (ask_levels s) i st of
              (erased, lvls, s1, rem1, trs1) \<Rightarrow>
                match_buy_loop clock buy_order (if erased then i else i + 1)
                  (s1\<lparr>ask_levels := lvls\<rparr>, rem1, trs1))
         else st))"
  by pat_completeness auto
termination
proof (relation "measure (\<lambda>(clock, buy_order, i, s, remaining_qty, trs).
                             length (ask_levels s) - i)", goal_cases)
  case 1
  show ?case by simp
next
  case (2 clock buy_order i st s rest remaining_qty trs erased rest1 lvls rest2 s1 rest3 rem1 trs1)
  have eq: "match_level Buy clock buy_order (ask_levels s) i st = (erased, lvls, s1, rem1, trs1)"
    using 2 by simp
  have lt: "i < length (ask_levels s)"
    using 2 by simp
  have st: "st = (s, remaining_qty, trs)"
    using 2 by simp
  show ?case
    using length_match_level [OF eq lt] lt st by (cases erased) auto
qed

declare match_buy_loop.simps [simp del]

text \<open>
  The outer loop of \<open>match_sell_order\<close>: \<open>bid_it\<close> is a reverse iterator, \<open>j\<close> steps
  away from \<open>rbegin()\<close>, so it points at position \<open>length - 1 - j\<close> of the ascending list.
  After an erase the source restarts at \<open>bid_levels.rbegin()\<close>.
\<close>

function match_sell_loop ::
    "(TradeID \<Rightarrow> Timestamp) \<Rightarrow> Order \<Rightarrow> nat \<Rightarrow> MatchingEngine \<times> Quantity \<times> Trade list
      \<Rightarrow> MatchingEngine \<times> Quantity \<times> Trade list" where
  "match_sell_loop clock sell_order j st =
     (case st of (s, remaining_qty, trs) \<Rightarrow>
        (if j < length (bid_levels s)
              \<and> fst (bid_levels s ! (length (bid_levels s) - 1 - j)) \<ge> price sell_order
              \<and> remaining_qty > 0
         then
           (case match_level Sell clock sell_order (bid_levels s)
                   (length (bid_levels s) - 1 - j) st of
              (erased, lvls, s1, rem1, trs1) \<Rightarrow>
                match_sell_loop clock sell_order (if erased then 0 else j + 1)
                  (s1\<lparr>bid_levels := lvls\<rparr>, rem1, trs1))
         else st))"
  by pat_completeness auto
termination
proof (relation "measures [\<lambda>(clock, sell_order, j, s, remaining_qty, trs).
                              length (bid_levels s),
                           \<lambda>(clock, sell_order, j, s, remaining_qty, trs).
                              length (bid_levels s) - j]", goal_cases)
  case 1
  show ?case by simp
next
  case (2 clock sell_order j st s rest remaining_qty trs erased rest1 lvls rest2 s1 rest3 rem1 trs1)
  have eq: "match_level Sell clock sell_order (bid_levels s) (length (bid_levels s) - 1 - j) st
              = (erased, lvls, s1, rem1, trs1)"
    using 2 by simp
  have lt: "j < length (bid_levels s)"
    using 2 by simp
  then have lt': "length (bid_levels s) - 1 - j < length (bid_levels s)"
    by arith
  have st: "st = (s, remaining_qty, trs)"
    using 2 by simp
  show ?case
    using length_match_level [OF eq lt'] lt st by (cases erased) auto
qed

declare match_sell_loop.simps [simp del]


text \<open>
  \<open>match_buy_order\<close>: the loop from \<open>ask_levels.begin()\<close> with
  \<open>remaining_qty = buy_order.quantity\<close>, then the entry for the remainder.
  \<open>working_order\<close> is a copy of the incoming order that the loop never changes.
\<close>

definition match_buy_order ::
    "(TradeID \<Rightarrow> Timestamp) \<Rightarrow> MatchingEngine \<Rightarrow> Order \<Rightarrow> MatchingEngine \<times> MatchResult" where
  "match_buy_order clock s buy_order =
     (case match_buy_loop clock buy_order 0 (s, quantity buy_order, []) of
        (s1, remaining_qty, trs) \<Rightarrow>
          (if remaining_qty = 0
           then (s1, \<lparr>trades = trs, fully_matched = True, remaining_order = None\<rparr>)
           else
             (case acquire (order_pool s1) of
                (None, pool) \<Rightarrow>
                  (s1, \<lparr>trades = trs, fully_matched = False, remaining_order = None\<rparr>)
              | (Some entry, pool) \<Rightarrow>
                  (s1\<lparr>order_pool := pool,
                      order_slots := (order_slots s1)
                        (entry := buy_order\<lparr>quantity := remaining_qty, status := Incoming\<rparr>)\<rparr>,
                   \<lparr>trades = trs, fully_matched = False, remaining_order = Some entry\<rparr>))))"

definition match_sell_order ::
    "(TradeID \<Rightarrow> Timestamp) \<Rightarrow> MatchingEngine \<Rightarrow> Order \<Rightarrow> MatchingEngine \<times> MatchResult" where
  "match_sell_order clock s sell_order =
     (case match_sell_loop clock sell_order 0 (s, quantity sell_order, []) of
        (s1, remaining_qty, trs) \<Rightarrow>
          (if remaining_qty = 0
           then (s1, \<lparr>trades = trs, fully_matched = True, remaining_order = None\<rparr>)
           else
             (case acquire (order_pool s1) of
                (None, pool) \<Rightarrow>
                  (s1, \<lparr>trades = trs, fully_matched = False, remaining_order = None\<rparr>)
              | (Some entry, pool) \<Rightarrow>
                  (s1\<lparr>order_pool := pool,
                      order_slots := (order_slots s1)
                        (entry := sell_order\<lparr>quantity := remaining_qty, status := Incoming\<rparr>)\<rparr>,
                   \<lparr>trades = trs, fully_matched = False, remaining_order = Some entry\<rparr>))))"

text \<open>
  \<open>map_assign\<close> is the change of a level through the iterator that \<open>find\<close> returned;
  \<open>map_put\<close> is \<open>levels[price] = std::move(level)\<close> for a price that \<open>find\<close> did not find.
\<close>

definition map_assign :: "Price \<Rightarrow> 'a \<Rightarrow> (Price \<times> 'a) list \<Rightarrow> (Price \<times> 'a) list" where
  "map_assign k v m = map (\<lambda>kv. if fst kv = k then (k, v) else kv) m"

definition add_order_to_book :: "MatchingEngine \<Rightarrow> nat \<Rightarrow> MatchingEngine" where
  "add_order_to_book s entry =
     (let ord = order_slots s entry;
          p = price ord;
          s1 = (if side ord = Buy then
                  (case map_find (bid_levels s) p of
                     None \<Rightarrow>
                       s\<lparr>bid_levels := map_put p (add_order (new_PriceLevel p) entry ord)
                                         (bid_levels s)\<rparr>
                   | Some level \<Rightarrow>
                       s\<lparr>bid_levels := map_assign p (add_order level entry ord) (bid_levels s)\<rparr>)
                else
                  (case map_find (ask_levels s) p of
                     None \<Rightarrow>
                       s\<lparr>ask_levels := map_put p (add_order (new_PriceLevel p) entry ord)
                                         (ask_levels s)\<rparr>
                   | Some level \<Rightarrow>
                       s\<lparr>ask_levels := map_assign p (add_order level entry ord) (ask_levels s)\<rparr>))
      in s1\<lparr>order_lookup := (order_lookup s1)(orderID ord \<mapsto> entry)\<rparr>)"

definition remove_order_from_book :: "MatchingEngine \<Rightarrow> nat \<Rightarrow> MatchingEngine" where
  "remove_order_from_book s entry =
     (let ord = order_slots s entry;
          p = price ord
      in if side ord = Buy then
           (case map_find (bid_levels s) p of
              Some level \<Rightarrow>
                (let level1 = remove_order level entry ord
                 in if level_empty level1 then s\<lparr>bid_levels := map_erase p (bid_levels s)\<rparr>
                    else s\<lparr>bid_levels := map_assign p level1 (bid_levels s)\<rparr>)
            | None \<Rightarrow> s)
         else
           (case map_find (ask_levels s) p of
              Some level \<Rightarrow>
                (let level1 = remove_order level entry ord
                 in if level_empty level1 then s\<lparr>ask_levels := map_erase p (ask_levels s)\<rparr>
                    else s\<lparr>ask_levels := map_assign p level1 (ask_levels s)\<rparr>)
            | None \<Rightarrow> s))"

text \<open>
  \<open>process_order\<close>. Neither it nor the two match functions read \<open>orderType\<close> or
  \<open>TimeInForce\<close>. The latency probe and the two optional callbacks are outside the
  engine's state and are not modelled.
\<close>

definition process_order ::
    "(TradeID \<Rightarrow> Timestamp) \<Rightarrow> MatchingEngine \<Rightarrow> Order \<Rightarrow> MatchingEngine \<times> MatchResult" where
  "process_order clock s incoming_order =
     (let s0 = s\<lparr>total_orders_processed := total_orders_processed s + 1\<rparr>
      in case (if side incoming_order = Buy then match_buy_order clock s0 incoming_order
               else match_sell_order clock s0 incoming_order) of
           (s1, result) \<Rightarrow>
             (case remaining_order result of
                Some entry \<Rightarrow>
                  (if \<not> fully_matched result then (add_order_to_book s1 entry, result)
                   else (s1, result))
              | None \<Rightarrow> (s1, result)))"

definition cancel_order :: "MatchingEngine \<Rightarrow> OrderID \<Rightarrow> bool \<times> MatchingEngine" where
  "cancel_order s order_id =
     (case order_lookup s order_id of
        None \<Rightarrow> (False, s)
      | Some entry \<Rightarrow>
          (let s1 = remove_order_from_book s entry;
               s2 = s1\<lparr>order_slots :=
                         (order_slots s1)(entry := (order_slots s1 entry)\<lparr>status := Cancelled\<rparr>)\<rparr>
           in (True, s2\<lparr>order_pool := release (order_pool s2) entry,
                        order_lookup := (order_lookup s2)(order_id := None)\<rparr>)))"

text \<open>\<open>get_book_state\<close>, as far as the best prices go (zero for an empty side).\<close>

definition book_best_bid :: "MatchingEngine \<Rightarrow> Price" where
  "book_best_bid s = (if bid_levels s = [] then 0 else fst (last (bid_levels s)))"

definition book_best_ask :: "MatchingEngine \<Rightarrow> Price" where
  "book_best_ask s = (if ask_levels s = [] then 0 else fst (hd (ask_levels s)))"

section \<open>Scenarios\<close>

text \<open>
  Concrete inputs for the examples below: the orders of the specification's end-to-end
  scenarios (symbol 1, limit orders, prices scaled), an engine with small pools, and a
  clock that always reads zero.
\<close>

definition limit_order ::
    "OrderID \<Rightarrow> Side \<Rightarrow> TimeInForce \<Rightarrow> Price \<Rightarrow> Quantity \<Rightarrow> Timestamp \<Rightarrow> Order" where
  "limit_order i sd tif p q ts =
     \<lparr>orderID = i, symbolID = 1, side = sd, orderType = Limit, TimeInForce = tif,
      price = p, quantity = q, filledQuantity = 0, status = Incoming, timestamp = ts\<rparr>"

definition zero_clock :: "TradeID \<Rightarrow> Timestamp" where
  "zero_clock tid = 0"

text \<open>
  The book of scenarios S1, S2 and S5 before the incoming buy: one resting sell, id 1,
  100 at 10100; and the incoming buys of S2 (GTC, 150), of S5 (IOC, 200) and a
  fill-or-kill one (200), all at 10100.
\<close>

definition book_S1 :: MatchingEngine where
  "book_S1 =
     fst (process_order zero_clock (new_MatchingEngine 4 4) (limit_order 1 Sell Gtc 10100 100 1))"

definition order_S2 :: Order where
  "order_S2 = limit_order 2 Buy Gtc 10100 150 2"



text \<open>Scenario S6 before the cancel: one resting bid, id 1, 100 at 10000.\<close>

definition book_S6 :: MatchingEngine where
  "book_S6 =
     fst (process_order zero_clock (new_MatchingEngine 4 4) (limit_order 1 Buy Gtc 10000 100 1))"

text \<open>An aggregator book with \<open>MaxLevels = 2\<close> whose bid side is full: 100 and 90.\<close>

definition full_bid_book :: OrderBook where
  "full_bid_book = update_level 2 (update_level 2 (new_OrderBook 2) Buy 100 5) Buy 90 5"

text \<open>An incoming sell of 50 at 10000 against the bid of \<open>book_S6\<close>.\<close>

definition order_sell_50 :: Order where
  "order_sell_50 = limit_order 2 Sell Gtc 10000 50 2"




section \<open>Vocabulary of the properties\<close>

text \<open>\<open>book_side\<close> is the reference \<open>(side == Side::Buy) ? bids : asks\<close> of \<open>update_level\<close>.\<close>

definition book_side :: "OrderBook \<Rightarrow> Side \<Rightarrow> BookSide" where
  "book_side b sd = (if sd = Buy then bids b else asks b)"

text \<open>
  The two order ids of a trade, seen from the side \<open>sd\<close> of the incoming order: for an
  incoming buy the resting order is the seller.
\<close>

definition resting_id :: "Side \<Rightarrow> Trade \<Rightarrow> OrderID" where
  "resting_id sd t = (if sd = Buy then sell_order_id t else buy_order_id t)"

definition incoming_id :: "Side \<Rightarrow> Trade \<Rightarrow> OrderID" where
  "incoming_id sd t = (if sd = Buy then buy_order_id t else sell_order_id t)"

text \<open>
  \<open>fills sd i trs\<close>: the quantity that the trades \<open>trs\<close> execute against the resting
  order with id \<open>i\<close>, as an unbounded sum. \<open>matched trs\<close>: the 64-bit sum of all trade
  quantities.
\<close>

definition fills :: "Side \<Rightarrow> OrderID \<Rightarrow> Trade list \<Rightarrow> nat" where
  "fills sd i trs =
     sum_list (map (\<lambda>t. unat (trade_quantity t)) (filter (\<lambda>t. resting_id sd t = i) trs))"

definition matched :: "Trade list \<Rightarrow> Quantity" where
  "matched trs = sum_list (map trade_quantity trs)"

text \<open>The side an incoming order matches against, and the side it rests on.\<close>

definition opp_levels :: "Side \<Rightarrow> MatchingEngine \<Rightarrow> (Price \<times> PriceLevel) list" where
  "opp_levels sd s = (if sd = Buy then ask_levels s else bid_levels s)"

definition own_levels :: "Side \<Rightarrow> MatchingEngine \<Rightarrow> (Price \<times> PriceLevel) list" where
  "own_levels sd s = (if sd = Buy then bid_levels s else ask_levels s)"

text \<open>All entries of one side, level by level, each level head first.\<close>

definition book_entries :: "(Price \<times> PriceLevel) list \<Rightarrow> nat list" where
  "book_entries lvls = concat (map (\<lambda>kv. entries (snd kv)) lvls)"

text \<open>The order id and the open quantity (the field \<open>quantity\<close>) of an entry.\<close>

definition oid :: "MatchingEngine \<Rightarrow> nat \<Rightarrow> OrderID" where
  "oid s h = orderID (order_slots s h)"

definition open_qty :: "MatchingEngine \<Rightarrow> nat \<Rightarrow> Quantity" where
  "open_qty s h = quantity (order_slots s h)"

text \<open>
  \<open>resting_at lvls s p i\<close>: an order with id \<open>i\<close> sits in a level of \<open>lvls\<close> whose key is
  the price \<open>p\<close>.
\<close>

definition resting_at ::
    "(Price \<times> PriceLevel) list \<Rightarrow> MatchingEngine \<Rightarrow> Price \<Rightarrow> OrderID \<Rightarrow> bool" where
  "resting_at lvls s p i =
     (\<exists>kv\<in>set lvls. fst kv = p \<and> (\<exists>h\<in>set (entries (snd kv)). oid s h = i))"

text \<open>
  Names for the pieces of one step of the inner loop: the trade that \<open>create_trade\<close>
  builds, the engine after \<open>create_trade\<close>, the engine and the level after a complete
  fill of the entry \<open>h\<close>, and the engine after a partial fill. \<open>counted\<close> is the engine
  after the first statement of \<open>process_order\<close>.
\<close>

definition made_trade ::
    "Side \<Rightarrow> (TradeID \<Rightarrow> Timestamp) \<Rightarrow> MatchingEngine \<Rightarrow> Order \<Rightarrow> Order \<Rightarrow> Price \<Rightarrow> Quantity
      \<Rightarrow> Trade" where
  "made_trade sd clock s w resting lp tq =
     (let b = (if sd = Buy then w else resting);
          sl = (if sd = Buy then resting else w)
      in \<lparr>trade_id = trade_id_generator s, buy_order_id = orderID b,
          sell_order_id = orderID sl, symbol_id = symbolID b, trade_price = lp,
          trade_quantity = tq, trade_timestamp = clock (trade_id_generator s),
          aggressor_side = determine_aggressor_side b sl\<rparr>)"

definition took_trade :: "MatchingEngine \<Rightarrow> MatchingEngine" where
  "took_trade s =
     s\<lparr>trade_pool := snd (acquire (trade_pool s)),
       trade_id_generator := trade_id_generator s + 1,
       total_trades_generated := total_trades_generated s + 1\<rparr>"

definition fill_engine :: "MatchingEngine \<Rightarrow> nat \<Rightarrow> MatchingEngine" where
  "fill_engine s h =
     (took_trade s)\<lparr>total_volume_matched :=
                         total_volume_matched s + quantity (order_slots s h),
        order_slots := (order_slots s)(h := (order_slots s h)
          \<lparr>quantity := 0,
           filledQuantity := filledQuantity (order_slots s h) + quantity (order_slots s h),
           status := Filled\<rparr>),
        order_lookup := (order_lookup s)(orderID (order_slots s h) := None),
        order_pool := release (order_pool s) h\<rparr>"

definition fill_level :: "PriceLevel \<Rightarrow> nat \<Rightarrow> Quantity \<Rightarrow> PriceLevel" where
  "fill_level lvl h q =
     lvl\<lparr>total_quantity := total_quantity lvl - q,
         entries := remove1 h (entries lvl),
         order_count := order_count lvl - 1\<rparr>"

definition part_engine :: "MatchingEngine \<Rightarrow> nat \<Rightarrow> Quantity \<Rightarrow> MatchingEngine" where
  "part_engine s h rem =
     (took_trade s)\<lparr>total_volume_matched := total_volume_matched s + rem,
        order_slots := (order_slots s)(h := (order_slots s h)
          \<lparr>quantity := quantity (order_slots s h) - rem,
           filledQuantity := filledQuantity (order_slots s h) + rem,
           status := PartiallyFilled\<rparr>)\<rparr>"

definition counted :: "MatchingEngine \<Rightarrow> MatchingEngine" where
  "counted s = s\<lparr>total_orders_processed := total_orders_processed s + 1\<rparr>"



text \<open>
  \<open>thinned ys xs\<close>: the chain \<open>ys\<close> is the chain \<open>xs\<close> with some entries unlinked.
\<close>

definition thinned :: "nat list \<Rightarrow> nat list \<Rightarrow> bool" where
  "thinned ys xs = (\<exists>P. ys = filter P xs)"

text \<open>
  Well-formedness of one side of the book: the keys of the map are distinct, no two
  resting entries carry the same order id, and \<open>order_count\<close> of every level is the
  length of its chain.
\<close>

definition counts_ok :: "(Price \<times> PriceLevel) list \<Rightarrow> bool" where
  "counts_ok lvls = (\<forall>kv\<in>set lvls. unat (order_count (snd kv)) = length (entries (snd kv)))"


text \<open>
  The state of a sweep relative to the side \<open>lvls0\<close> and the engine \<open>s0\<close> it started
  from. \<open>shrunk\<close>: every level still present is a level of the start with a thinned
  chain. \<open>conserved\<close>: the open quantity of the entry \<open>h\<close> has gone down, and its
  filled quantity has gone up, by the quantity of the trades against its id.
  \<open>fifo_kept\<close>: whenever a trade is against an entry \<open>b\<close>, the trades before it have
  taken the whole open quantity of every entry \<open>a\<close> that stood before \<open>b\<close> in the same
  chain. \<open>sweep_inv\<close> collects what every step of the sweep keeps.
\<close>

definition shrunk :: "(Price \<times> PriceLevel) list \<Rightarrow> (Price \<times> PriceLevel) list \<Rightarrow> bool" where
  "shrunk lvls lvls0 =
     (\<forall>kv\<in>set lvls. \<exists>kv0\<in>set lvls0.
         fst kv0 = fst kv \<and> thinned (entries (snd kv)) (entries (snd kv0)))"

definition conserved :: "Side \<Rightarrow> MatchingEngine \<Rightarrow> MatchingEngine \<Rightarrow> Trade list \<Rightarrow> nat \<Rightarrow> bool" where
  "conserved sd s0 s trs h =
     (unat (open_qty s h) + fills sd (oid s0 h) trs = unat (open_qty s0 h)
      \<and> filledQuantity (order_slots s h)
          = filledQuantity (order_slots s0 h) + of_nat (fills sd (oid s0 h) trs))"

definition fifo_kept ::
    "Side \<Rightarrow> (Price \<times> PriceLevel) list \<Rightarrow> MatchingEngine \<Rightarrow> Trade list \<Rightarrow> bool" where
  "fifo_kept sd lvls0 s0 trs =
     (\<forall>kv0\<in>set lvls0. \<forall>pre a post b T1 t T2.
         entries (snd kv0) = pre @ a # post \<longrightarrow> b \<in> set post \<longrightarrow>
         trs = T1 @ t # T2 \<longrightarrow> resting_id sd t = oid s0 b \<longrightarrow>
         fills sd (oid s0 a) T1 = unat (open_qty s0 a))"

definition sweep_inv ::
    "Side \<Rightarrow> (Price \<times> PriceLevel) list \<Rightarrow> MatchingEngine
      \<Rightarrow> (Price \<times> PriceLevel) list \<Rightarrow> MatchingEngine \<Rightarrow> Trade list \<Rightarrow> bool" where
  "sweep_inv sd lvls0 s0 lvls s trs =
     (distinct (map fst lvls) \<and> shrunk lvls lvls0 \<and> counts_ok lvls \<and> oid s = oid s0
      \<and> (\<forall>h\<in>set (book_entries lvls0).
            conserved sd s0 s trs h \<and> (h \<notin> set (book_entries lvls) \<longrightarrow> open_qty s h = 0))
      \<and> fifo_kept sd lvls0 s0 trs)"

text \<open>\<open>volume trs\<close>: the sum of all trade quantities, unbounded.\<close>

definition volume :: "Trade list \<Rightarrow> nat" where
  "volume trs = sum_list (map (\<lambda>t. unat (trade_quantity t)) trs)"




section \<open>The aggregator order book: properties\<close>

lemma add_level_full:
  "MaxLevels \<le> unat (level_count bs) \<Longrightarrow> add_level MaxLevels is_bid bs p q = bs"
  by (simp add: add_level_def)

lemma update_side_full_new:
  "MaxLevels \<le> unat (level_count bs) \<Longrightarrow> price_to_index bs p = None
    \<Longrightarrow> update_side MaxLevels is_bid bs p q = bs"
  by (simp add: update_side_def add_level_full)

lemma bids_update_best_prices [simp]: "bids (update_best_prices b) = bids b"
  by (simp add: update_best_prices_def Let_def)

lemma asks_update_best_prices [simp]: "asks (update_best_prices b) = asks b"
  by (simp add: update_best_prices_def Let_def)

lemma version_update_best_prices [simp]: "version (update_best_prices b) = version b"
  by (simp add: update_best_prices_def Let_def)

lemma book_side_update_level:
  "book_side (update_level MaxLevels b sd p q) sd
     = update_side MaxLevels (sd = Buy) (book_side b sd) p q"
  by (cases sd) (simp_all add: update_level_def book_side_def Let_def)

lemma version_update_level: "version (update_level MaxLevels b sd p q) = version b + 1"
  by (simp add: update_level_def Let_def)

lemma full_bid_book_levels:
  "map lv_price (levels (bids full_bid_book)) = [100, 90]"
  "level_count (bids full_bid_book) = 2"
  "price_to_index (bids full_bid_book) 110 = None"
  "price_to_index (bids full_bid_book) 90 = Some 1"
  by code_simp+

text \<open>The shift loop of \<open>remove_level\<close> and what a removal does.\<close>

lemma shift_down_frame:
  "level_count (shift_down bs i bound) = level_count bs
   \<and> length (levels (shift_down bs i bound)) = length (levels bs)"
proof (induction bs i bound rule: shift_down.induct)
  case (1 bs i bound)
  show ?case
  proof (cases "i < bound")
    case True
    with "1.IH" [OF True refl] show ?thesis
      by (subst (1 2) shift_down.simps) (simp add: Let_def)
  next
    case False
    then show ?thesis by (subst (1 2) shift_down.simps) simp
  qed
qed

lemma shift_down_levels:
  assumes "bound < length (levels bs)"
  shows "levels (shift_down bs i bound) ! j
           = (if i \<le> j \<and> j < bound then levels bs ! (j + 1) else levels bs ! j)"
  using assms
proof (induction bs i bound arbitrary: j rule: shift_down.induct)
  case (1 bs i bound)
  show ?case
  proof (cases "i < bound")
    case True
    let ?bs1 = "bs\<lparr>levels := (levels bs)[i := levels bs ! (i + 1)],
                   price_to_index := (price_to_index bs)
                      (lv_price (levels bs ! (i + 1)) \<mapsto> of_nat i)\<rparr>"
    have len: "bound < length (levels ?bs1)" using "1.prems" by simp
    have eq: "shift_down bs i bound = shift_down ?bs1 (i + 1) bound"
      using True by (subst shift_down.simps) (simp add: Let_def)
    have "levels (shift_down ?bs1 (i + 1) bound) ! j
           = (if i + 1 \<le> j \<and> j < bound then levels ?bs1 ! (j + 1) else levels ?bs1 ! j)"
      using "1.IH" [OF True refl len] by simp
    with True "1.prems" show ?thesis
      unfolding eq by (auto simp: nth_list_update)
  next
    case False
    then show ?thesis by (subst shift_down.simps) auto
  qed
qed

lemma remove_level_removes:
  assumes idx: "unat index < unat (level_count bs)"
    and len: "unat (level_count bs) \<le> length (levels bs)"
  shows "level_count (remove_level bs index p) = level_count bs - 1
         \<and> price_to_index (remove_level bs index p) p = None
         \<and> (\<forall>j. levels (remove_level bs index p) ! j
                = (if unat index \<le> j \<and> j < unat (level_count bs) - 1
                   then levels bs ! (j + 1) else levels bs ! j))"
proof -
  from idx len have b: "unat (level_count bs) - 1 < length (levels bs)" by arith
  have "unat (level_count bs) - Suc 0 < length (levels bs)" using b by simp
  note sd = shift_down_levels [OF this]
  from idx show ?thesis
    by (simp add: remove_level_def Let_def sd)
qed

lemma remove_level_past_count:
  "unat (level_count bs) \<le> unat index \<Longrightarrow> remove_level bs index p = bs"
  by (simp add: remove_level_def)

text \<open>
  Claim C9, as stated: on a full side only insertions at a price worse than the worst
  stored level are dropped. It fails: on the full bid side 100, 90 an insertion at the
  new price 110, better than the best bid, is dropped as well.
\<close>

theorem update_level_drops_better_price:
  "unat (level_count (bids full_bid_book)) = 2
   \<and> map lv_price (take 2 (levels (bids full_bid_book))) = [100, 90]
   \<and> price_to_index (bids full_bid_book) 110 = None
   \<and> \<not> (110 :: Price) < 90
   \<and> map lv_price (take 2 (levels (bids (update_level 2 full_bid_book Buy 110 7)))) = [100, 90]
   \<and> price_to_index (bids (update_level 2 full_bid_book Buy 110 7)) 110 = None"
  by code_simp

text \<open>
  Claim C9, amended: when the side already holds \<open>MaxLevels\<close> levels, \<open>update_level\<close>
  for a price that is not stored drops the insertion whatever the price is, better or
  worse: both sides keep their levels, count and index map, and only the version is
  incremented. An update of a stored price with a quantity other than zero replaces the
  quantity of the level at the stored index. With quantity zero and a stored index
  below the count (the array holding at least \<open>level_count\<close> levels) the level is
  removed: the count goes down by one, the price leaves the index map, the levels below
  the index stay and the later ones move up by one place. With a stored index at or
  past the count the side stays as it is.
\<close>

theorem update_level_full_side:
  assumes full: "MaxLevels \<le> unat (level_count (book_side b sd))"
  shows "(price_to_index (book_side b sd) p = None \<longrightarrow>
            bids (update_level MaxLevels b sd p q) = bids b
            \<and> asks (update_level MaxLevels b sd p q) = asks b
            \<and> version (update_level MaxLevels b sd p q) = version b + 1)
       \<and> (price_to_index (book_side b sd) p = Some index \<and> q \<noteq> 0 \<longrightarrow>
            book_side (update_level MaxLevels b sd p q) sd
              = (book_side b sd)\<lparr>levels := (levels (book_side b sd))
                   [unat index := (levels (book_side b sd) ! unat index)\<lparr>lv_quantity := q\<rparr>]\<rparr>)
       \<and> (price_to_index (book_side b sd) p = Some index \<and> q = 0
            \<and> unat index < unat (level_count (book_side b sd))
            \<and> unat (level_count (book_side b sd)) \<le> length (levels (book_side b sd)) \<longrightarrow>
            level_count (book_side (update_level MaxLevels b sd p q) sd)
              = level_count (book_side b sd) - 1
            \<and> price_to_index (book_side (update_level MaxLevels b sd p q) sd) p = None
            \<and> (\<forall>j. levels (book_side (update_level MaxLevels b sd p q) sd) ! j
                  = (if unat index \<le> j \<and> j < unat (level_count (book_side b sd)) - 1
                     then levels (book_side b sd) ! (j + 1) else levels (book_side b sd) ! j)))
       \<and> (price_to_index (book_side b sd) p = Some index \<and> q = 0
            \<and> unat (level_count (book_side b sd)) \<le> unat index \<longrightarrow>
            book_side (update_level MaxLevels b sd p q) sd = book_side b sd)"
proof (intro conjI impI)
  assume new: "price_to_index (book_side b sd) p = None"
  have same: "update_side MaxLevels (sd = Buy) (book_side b sd) p q = book_side b sd"
    using full new by (rule update_side_full_new)
  then show "bids (update_level MaxLevels b sd p q) = bids b"
    by (cases sd) (simp_all add: update_level_def book_side_def Let_def)
  from same show "asks (update_level MaxLevels b sd p q) = asks b"
    by (cases sd) (simp_all add: update_level_def book_side_def Let_def)
  show "version (update_level MaxLevels b sd p q) = version b + 1"
    by (rule version_update_level)
next
  assume "price_to_index (book_side b sd) p = Some index \<and> q \<noteq> 0"
  then show "book_side (update_level MaxLevels b sd p q) sd
              = (book_side b sd)\<lparr>levels := (levels (book_side b sd))
                   [unat index := (levels (book_side b sd) ! unat index)\<lparr>lv_quantity := q\<rparr>]\<rparr>"
    by (simp add: book_side_update_level update_side_def)
next
  assume a: "price_to_index (book_side b sd) p = Some index \<and> q = 0
            \<and> unat index < unat (level_count (book_side b sd))
            \<and> unat (level_count (book_side b sd)) \<le> length (levels (book_side b sd))"
  then have eq: "book_side (update_level MaxLevels b sd p q) sd
                  = remove_level (book_side b sd) index p"
    by (simp add: book_side_update_level update_side_def)
  from a have idx: "unat index < unat (level_count (book_side b sd))"
    and len: "unat (level_count (book_side b sd)) \<le> length (levels (book_side b sd))"
    by simp_all
  note rm = remove_level_removes [OF idx len, of p]
  from rm show "level_count (book_side (update_level MaxLevels b sd p q) sd)
              = level_count (book_side b sd) - 1"
    unfolding eq by simp
  from rm show "price_to_index (book_side (update_level MaxLevels b sd p q) sd) p = None"
    unfolding eq by simp
  from rm show "\<forall>j. levels (book_side (update_level MaxLevels b sd p q) sd) ! j
                  = (if unat index \<le> j \<and> j < unat (level_count (book_side b sd)) - 1
                     then levels (book_side b sd) ! (j + 1) else levels (book_side b sd) ! j)"
    unfolding eq by simp
next
  assume "price_to_index (book_side b sd) p = Some index \<and> q = 0
            \<and> unat (level_count (book_side b sd)) \<le> unat index"
  then show "book_side (update_level MaxLevels b sd p q) sd = book_side b sd"
    by (simp add: book_side_update_level update_side_def remove_level_past_count)
qed

theorem update_level_full_side_witness:
  "2 \<le> unat (level_count (book_side full_bid_book Buy))
   \<and> price_to_index (book_side full_bid_book Buy) 110 = None
   \<and> bids (update_level 2 full_bid_book Buy 110 7) = bids full_bid_book
   \<and> version (update_level 2 full_bid_book Buy 110 7) = version full_bid_book + 1
   \<and> price_to_index (book_side full_bid_book Buy) 100 = Some 0
   \<and> unat (0 :: 16 word) < unat (level_count (book_side full_bid_book Buy))
   \<and> unat (level_count (book_side full_bid_book Buy))
       \<le> length (levels (book_side full_bid_book Buy))
   \<and> lv_price (levels (book_side full_bid_book Buy) ! 1) = 90
   \<and> level_count (book_side (update_level 2 full_bid_book Buy 100 0) Buy) = 1
   \<and> price_to_index (book_side (update_level 2 full_bid_book Buy 100 0) Buy) 100 = None
   \<and> lv_price (levels (book_side (update_level 2 full_bid_book Buy 100 0) Buy) ! 0) = 90"
proof -
  have full: "2 \<le> unat (level_count (book_side full_bid_book Buy))"
    by (simp add: book_side_def full_bid_book_levels)
  have n: "price_to_index (book_side full_bid_book Buy) 110 = None"
    by (simp add: book_side_def full_bid_book_levels)
  have e: "price_to_index (book_side full_bid_book Buy) 100 = Some 0"
    by code_simp
  have i: "unat (0 :: 16 word) < unat (level_count (book_side full_bid_book Buy))"
    by (simp add: book_side_def full_bid_book_levels)
  have l: "unat (level_count (book_side full_bid_book Buy))
             \<le> length (levels (book_side full_bid_book Buy))"
    by code_simp
  have c: "level_count (book_side full_bid_book Buy) = 2"
    by (simp add: book_side_def full_bid_book_levels)
  have p: "lv_price (levels (book_side full_bid_book Buy) ! 1) = 90"
    by code_simp
  show ?thesis
    using full n e i l p
      update_level_full_side [OF full, of 110 7 0]
      update_level_full_side [OF full, of 100 0 0]
    by (simp add: c)
qed

lemma best_ask_update_best_prices:
  "level_count (asks b) = 0 \<Longrightarrow> best_ask (update_best_prices b) = UINT64_MAX"
  by (simp add: update_best_prices_def Let_def)

lemma best_bid_update_best_prices:
  "level_count (bids b) = 0 \<Longrightarrow> best_bid (update_best_prices b) = 0"
  by (simp add: update_best_prices_def Let_def)

lemma best_ask_update_level:
  "level_count (asks (update_level MaxLevels b sd p q)) = 0
    \<Longrightarrow> best_ask (update_level MaxLevels b sd p q) = UINT64_MAX"
  by (simp add: update_level_def Let_def best_ask_update_best_prices)

lemma best_bid_update_level:
  "level_count (bids (update_level MaxLevels b sd p q)) = 0
    \<Longrightarrow> best_bid (update_level MaxLevels b sd p q) = 0"
  by (simp add: update_level_def Let_def best_bid_update_best_prices)

text \<open>
  Claim C10: \<open>get_best_ask\<close> never returns the sentinel \<open>UINT64_MAX\<close>. A new book answers
  0 for both best prices; after any \<open>update_level\<close> that leaves the ask side empty the
  atom \<open>best_ask\<close> holds the sentinel and \<open>get_best_ask\<close> returns 0, and after any
  \<open>update_level\<close> that leaves the bid side empty \<open>get_best_bid\<close> returns 0.
\<close>

theorem best_prices_hide_sentinel:
  "get_best_ask b \<noteq> UINT64_MAX
   \<and> get_best_ask (new_OrderBook MaxLevels) = 0
   \<and> get_best_bid (new_OrderBook MaxLevels) = 0
   \<and> (level_count (asks (update_level MaxLevels b sd p q)) = 0 \<longrightarrow>
        best_ask (update_level MaxLevels b sd p q) = UINT64_MAX
        \<and> get_best_ask (update_level MaxLevels b sd p q) = 0)
   \<and> (level_count (bids (update_level MaxLevels b sd p q)) = 0 \<longrightarrow>
        get_best_bid (update_level MaxLevels b sd p q) = 0)"
proof (intro conjI impI)
  show "get_best_ask b \<noteq> UINT64_MAX"
    by (simp add: get_best_ask_def Let_def UINT64_MAX_def)
  show "get_best_ask (new_OrderBook MaxLevels) = 0"
    by (simp add: get_best_ask_def new_OrderBook_def)
  show "get_best_bid (new_OrderBook MaxLevels) = 0"
    by (simp add: get_best_bid_def new_OrderBook_def)
next
  assume "level_count (asks (update_level MaxLevels b sd p q)) = 0"
  then have "best_ask (update_level MaxLevels b sd p q) = UINT64_MAX"
    by (rule best_ask_update_level)
  then show "best_ask (update_level MaxLevels b sd p q) = UINT64_MAX"
    and "get_best_ask (update_level MaxLevels b sd p q) = 0"
    by (simp_all add: get_best_ask_def)
next
  assume "level_count (bids (update_level MaxLevels b sd p q)) = 0"
  then show "get_best_bid (update_level MaxLevels b sd p q) = 0"
    by (simp add: get_best_bid_def best_bid_update_level)
qed

theorem best_prices_hide_sentinel_witness:
  "level_count (asks (update_level 2 (new_OrderBook 2) Buy 100 5)) = 0
   \<and> get_best_ask (update_level 2 (new_OrderBook 2) Buy 100 5) = 0
   \<and> best_ask (update_level 2 (new_OrderBook 2) Buy 100 5) = UINT64_MAX
   \<and> level_count (bids (update_level 2 (new_OrderBook 2) Sell 100 5)) = 0
   \<and> get_best_bid (update_level 2 (new_OrderBook 2) Sell 100 5) = 0"
proof -
  have a: "level_count (asks (update_level 2 (new_OrderBook 2) Buy 100 5)) = 0"
    by code_simp
  have b: "level_count (bids (update_level 2 (new_OrderBook 2) Sell 100 5)) = 0"
    by code_simp
  show ?thesis
    using a b
      best_prices_hide_sentinel
        [where b = "new_OrderBook 2" and MaxLevels = 2 and sd = Buy and p = 100 and q = 5]
      best_prices_hide_sentinel
        [where b = "new_OrderBook 2" and MaxLevels = 2 and sd = Sell and p = 100 and q = 5]
    by simp
qed


section \<open>The token bucket: properties\<close>

text \<open>
  Claim C8 at the per-symbol limiter that \<open>get_or_create_symbol_limiter\<close> builds,
  \<open>RateLimiter(100, 100)\<close>: the bucket size is 100 but the bucket starts with the 1000
  tokens of the member initialiser, and a check with no time elapsed leaves 999 tokens,
  outside the range from 0 to the bucket size.
\<close>

theorem symbol_limiter_exceeds_bucket:
  "tokens (RateLimiter_init 100 100 t0) = 1000
   \<and> bucket_size (RateLimiter_init 100 100 t0) = 100
   \<and> check_rate_limit freq t0 (RateLimiter_init 100 100 t0)
       = Some (True, \<lparr>tokens = 999, last_refill_time = t0, refill_rate = 100, bucket_size = 100\<rparr>)
   \<and> \<not> (999 :: 32 word) \<le> 100"
  by (simp add: check_rate_limit_def RateLimiter_init_def consume_def)

text \<open>
  The 32-bit sum of the refill wraps as well: a full default bucket that was idle for
  4294966796 ms is refilled down to 500 tokens.
\<close>

lemma refill_wraps:
  "refill \<lparr>tokens = 1000, last_refill_time = 0, refill_rate = 1000, bucket_size = 1000\<rparr>
      t 4294966796000000
     = \<lparr>tokens = 500, last_refill_time = t, refill_rate = 1000, bucket_size = 1000\<rparr>"
  by (simp add: refill_def Let_def)


section \<open>The matching engine: cancel\<close>

lemma cancel_order_not_found:
  "order_lookup s order_id = None \<Longrightarrow> cancel_order s order_id = (False, s)"
  by (simp add: cancel_order_def)

lemma order_lookup_remove_order_from_book:
  "order_lookup (remove_order_from_book s entry) = order_lookup s"
  by (simp add: remove_order_from_book_def Let_def split: option.splits)

lemma order_lookup_cancel_order:
  "order_lookup (snd (cancel_order s order_id)) order_id = None"
  by (simp add: cancel_order_def Let_def order_lookup_remove_order_from_book
           split: option.splits)

text \<open>
  Claim C7: \<open>cancel_order\<close> of an id that is not in \<open>order_lookup\<close> returns false and
  leaves the whole engine state as it was; and after a \<open>cancel_order\<close> that returned
  true, a second \<open>cancel_order\<close> of the same id returns false and changes nothing.
\<close>

theorem cancel_order_idempotent:
  "(order_lookup s order_id = None \<longrightarrow> cancel_order s order_id = (False, s))
   \<and> (fst (cancel_order s order_id) \<longrightarrow>
        cancel_order (snd (cancel_order s order_id)) order_id
          = (False, snd (cancel_order s order_id)))"
  by (simp add: cancel_order_not_found order_lookup_cancel_order)

theorem cancel_order_idempotent_witness:
  "order_lookup book_S6 7 = None \<and> cancel_order book_S6 7 = (False, book_S6)
   \<and> fst (cancel_order book_S6 1)
   \<and> cancel_order (snd (cancel_order book_S6 1)) 1 = (False, snd (cancel_order book_S6 1))
   \<and> book_best_bid book_S6 = 10000 \<and> book_best_bid (snd (cancel_order book_S6 1)) = 0"
proof -
  have a: "order_lookup book_S6 7 = None" by code_simp
  have b: "fst (cancel_order book_S6 1)" by code_simp
  have c: "book_best_bid book_S6 = 10000" by code_simp
  have d: "book_best_bid (snd (cancel_order book_S6 1)) = 0" by code_simp
  show ?thesis
    using a b c d cancel_order_idempotent [of book_S6 7] cancel_order_idempotent [of book_S6 1]
    by simp
qed


section \<open>The matching engine: one step of the inner loop\<close>

lemma create_trade_Nil:
  "free_list (trade_pool s) = [] \<Longrightarrow> create_trade clock s b sl p q = (None, s)"
  by (simp add: create_trade_def acquire_def)

lemma create_trade_side:
  "free_list (trade_pool s) \<noteq> [] \<Longrightarrow>
   (if sd = Buy then create_trade clock s w r lp tq else create_trade clock s r w lp tq)
     = (Some (made_trade sd clock s w r lp tq), took_trade s)"
  by (cases "free_list (trade_pool s)")
     (simp_all add: create_trade_def acquire_def made_trade_def took_trade_def)

lemma match_entry_Nil:
  "free_list (trade_pool s) = [] \<Longrightarrow>
   match_entry sd clock w lp h (s, lvl, rem, trs) = (s, lvl, rem, trs)"
  by (simp add: match_entry_def create_trade_Nil Let_def)

lemma match_entry_filled:
  assumes "free_list (trade_pool s) \<noteq> []" and "quantity (order_slots s h) \<le> rem"
  shows "match_entry sd clock w lp h (s, lvl, rem, trs) =
     ((took_trade s)\<lparr>total_volume_matched :=
                         total_volume_matched s + quantity (order_slots s h),
        order_slots := (order_slots s)(h := (order_slots s h)
          \<lparr>quantity := 0,
           filledQuantity := filledQuantity (order_slots s h) + quantity (order_slots s h),
           status := Filled\<rparr>),
        order_lookup := (order_lookup s)(orderID (order_slots s h) := None),
        order_pool := release (order_pool s) h\<rparr>,
      lvl\<lparr>total_quantity := total_quantity lvl - quantity (order_slots s h),
          entries := remove1 h (entries lvl),
          order_count := order_count lvl - 1\<rparr>,
      rem - quantity (order_slots s h),
      trs @ [made_trade sd clock s w (order_slots s h) lp (quantity (order_slots s h))])"
proof -
  have m: "min rem (quantity (order_slots s h)) = quantity (order_slots s h)"
    using assms(2) by (simp add: min_def)
  show ?thesis
    unfolding match_entry_def
    by (simp add: create_trade_side [OF assms(1)] m Let_def remove_order_def took_trade_def)
qed

lemma match_entry_partial:
  assumes "free_list (trade_pool s) \<noteq> []" and "rem < quantity (order_slots s h)"
  shows "match_entry sd clock w lp h (s, lvl, rem, trs) =
     ((took_trade s)\<lparr>total_volume_matched := total_volume_matched s + rem,
        order_slots := (order_slots s)(h := (order_slots s h)
          \<lparr>quantity := quantity (order_slots s h) - rem,
           filledQuantity := filledQuantity (order_slots s h) + rem,
           status := PartiallyFilled\<rparr>)\<rparr>,
      lvl\<lparr>total_quantity := total_quantity lvl - rem\<rparr>,
      0,
      trs @ [made_trade sd clock s w (order_slots s h) lp rem])"
proof -
  have m: "min rem (quantity (order_slots s h)) = rem"
    using assms(2) by (intro min.absorb1 less_imp_le)
  have nz: "quantity (order_slots s h) \<noteq> rem"
    using assms(2) by auto
  show ?thesis
    unfolding match_entry_def
    by (simp add: create_trade_side [OF assms(1)] m nz Let_def took_trade_def)
qed

lemma made_trade_simps [simp]:
  "trade_price (made_trade sd clock s w r lp tq) = lp"
  "trade_quantity (made_trade sd clock s w r lp tq) = tq"
  "resting_id sd (made_trade sd clock s w r lp tq) = orderID r"
  "incoming_id sd (made_trade sd clock s w r lp tq) = orderID w"
  "trade_id (made_trade sd clock s w r lp tq) = trade_id_generator s"
  by (simp_all add: made_trade_def resting_id_def incoming_id_def)

lemma took_trade_simps [simp]:
  "ask_levels (took_trade s) = ask_levels s"
  "bid_levels (took_trade s) = bid_levels s"
  "order_slots (took_trade s) = order_slots s"
  "order_pool (took_trade s) = order_pool s"
  "order_lookup (took_trade s) = order_lookup s"
  "free_list (trade_pool (took_trade s)) = tl (free_list (trade_pool s))"
  by (simp_all add: took_trade_def acquire_def split: list.splits)

lemma match_level_loop_zero:
  "match_level_loop sd clock w lp hs (s, lvl, 0, trs) = (s, lvl, 0, trs)"
  by (cases hs) simp_all

lemma match_level_loop_no_pool:
  "free_list (trade_pool s) = [] \<Longrightarrow>
   match_level_loop sd clock w lp hs (s, lvl, rem, trs) = (s, lvl, rem, trs)"
  by (induction hs) (simp_all add: match_entry_Nil)

lemma match_level_loop_Cons:
  "match_level_loop sd clock w lp (h # hs) (s, lvl, rem, trs) =
     (if rem = 0 \<or> free_list (trade_pool s) = [] then (s, lvl, rem, trs)
      else if open_qty s h \<le> rem
      then match_level_loop sd clock w lp hs
             (fill_engine s h, fill_level lvl h (open_qty s h), rem - open_qty s h,
              trs @ [made_trade sd clock s w (order_slots s h) lp (open_qty s h)])
      else (part_engine s h rem, lvl\<lparr>total_quantity := total_quantity lvl - rem\<rparr>, 0,
            trs @ [made_trade sd clock s w (order_slots s h) lp rem]))"
proof -
  consider "rem = 0" | "rem \<noteq> 0" "free_list (trade_pool s) = []"
    | "rem \<noteq> 0" "free_list (trade_pool s) \<noteq> []" "open_qty s h \<le> rem"
    | "rem \<noteq> 0" "free_list (trade_pool s) \<noteq> []" "rem < open_qty s h"
    by fastforce
  then show ?thesis
  proof cases
    case 1
    then show ?thesis by simp
  next
    case 2
    then show ?thesis
      by (simp add: match_entry_Nil match_level_loop_no_pool)
  next
    case 3
    then show ?thesis
      by (simp add: word_gt_0 match_entry_filled open_qty_def fill_engine_def fill_level_def)
  next
    case 4
    then have "\<not> open_qty s h \<le> rem" by simp
    with 4 show ?thesis
      by (simp add: word_gt_0 match_entry_partial open_qty_def part_engine_def
            match_level_loop_zero)
  qed
qed

declare match_level_loop.simps(2) [simp del]

lemma fill_engine_simps [simp]:
  "ask_levels (fill_engine s h) = ask_levels s"
  "bid_levels (fill_engine s h) = bid_levels s"
  "order_slots (fill_engine s h) = (order_slots s)(h := (order_slots s h)
          \<lparr>quantity := 0,
           filledQuantity := filledQuantity (order_slots s h) + quantity (order_slots s h),
           status := Filled\<rparr>)"
  "free_list (order_pool (fill_engine s h)) = h # free_list (order_pool s)"
  "free_list (trade_pool (fill_engine s h)) = tl (free_list (trade_pool s))"
  by (simp_all add: fill_engine_def release_def)

lemma part_engine_simps [simp]:
  "ask_levels (part_engine s h rem) = ask_levels s"
  "bid_levels (part_engine s h rem) = bid_levels s"
  "order_slots (part_engine s h rem) = (order_slots s)(h := (order_slots s h)
          \<lparr>quantity := quantity (order_slots s h) - rem,
           filledQuantity := filledQuantity (order_slots s h) + rem,
           status := PartiallyFilled\<rparr>)"
  "order_pool (part_engine s h rem) = order_pool s"
  "free_list (trade_pool (part_engine s h rem)) = tl (free_list (trade_pool s))"
  by (simp_all add: part_engine_def)

lemma fill_level_simps [simp]:
  "entries (fill_level lvl h q) = remove1 h (entries lvl)"
  "order_count (fill_level lvl h q) = order_count lvl - 1"
  by (simp_all add: fill_level_def)

lemma oid_fill_engine [simp]: "oid (fill_engine s h) = oid s"
  by (simp add: oid_def fun_eq_iff)

lemma oid_part_engine [simp]: "oid (part_engine s h rem) = oid s"
  by (simp add: oid_def fun_eq_iff)

lemma open_qty_fill_engine [simp]:
  "open_qty (fill_engine s h) x = (if x = h then 0 else open_qty s x)"
  by (simp add: open_qty_def)

lemma open_qty_part_engine [simp]:
  "open_qty (part_engine s h rem) x = (if x = h then open_qty s h - rem else open_qty s x)"
  by (simp add: open_qty_def)

text \<open>Frame: the loop leaves the level maps and the identity of every entry alone.\<close>

lemma match_level_loop_frame:
  assumes "match_level_loop sd clock w lp hs (s, lvl, rem, trs) = (s', lvl', rem', trs')"
  shows "ask_levels s' = ask_levels s \<and> bid_levels s' = bid_levels s \<and> oid s' = oid s"
  using assms
proof (induction hs arbitrary: s lvl rem trs)
  case Nil
  then show ?case by simp
next
  case (Cons h hs)
  then show ?case
    by (auto simp: match_level_loop_Cons split: if_splits)
qed


lemma match_level_loop_ConsE:
  assumes "match_level_loop sd clock w lp (h # hs) (s, lvl, rem, trs) = r"
  obtains
    (stop) "rem = 0 \<or> free_list (trade_pool s) = []" "r = (s, lvl, rem, trs)"
  | (fill) "rem \<noteq> 0" "free_list (trade_pool s) \<noteq> []" "open_qty s h \<le> rem"
      "match_level_loop sd clock w lp hs
         (fill_engine s h, fill_level lvl h (open_qty s h), rem - open_qty s h,
          trs @ [made_trade sd clock s w (order_slots s h) lp (open_qty s h)]) = r"
  | (part) "rem \<noteq> 0" "free_list (trade_pool s) \<noteq> []" "rem < open_qty s h"
      "r = (part_engine s h rem, lvl\<lparr>total_quantity := total_quantity lvl - rem\<rparr>, 0,
            trs @ [made_trade sd clock s w (order_slots s h) lp rem])"
  using assms unfolding match_level_loop_Cons
  by (cases "rem = 0 \<or> free_list (trade_pool s) = []"; cases "open_qty s h \<le> rem")
     (auto split: if_splits)

lemma fills_Nil [simp]: "fills sd i [] = 0"
  by (simp add: fills_def)

lemma fills_Cons [simp]:
  "fills sd i (t # ts) =
     (if resting_id sd t = i then unat (trade_quantity t) else 0) + fills sd i ts"
  by (simp add: fills_def)

lemma fills_append [simp]: "fills sd i (xs @ ys) = fills sd i xs + fills sd i ys"
  by (simp add: fills_def)


text \<open>The trades of one walk over a level.\<close>

lemma match_level_loop_trades:
  assumes "match_level_loop sd clock w lp hs (s, lvl, rem, trs) = (s', lvl', rem', trs')"
  shows "\<exists>new. trs' = trs @ new
           \<and> (\<forall>t\<in>set new. trade_price t = lp \<and> incoming_id sd t = orderID w
                  \<and> resting_id sd t \<in> oid s ` set hs)
           \<and> rem' = rem - sum_list (map trade_quantity new)"
  using assms
proof (induction hs arbitrary: s lvl rem trs)
  case Nil
  then show ?case by simp
next
  case (Cons h hs)
  from Cons.prems show ?case
  proof (cases rule: match_level_loop_ConsE)
    case stop
    then show ?thesis by simp
  next
    case fill
    let ?t = "made_trade sd clock s w (order_slots s h) lp (open_qty s h)"
    from Cons.IH [OF fill(4)] obtain new where
      new: "trs' = (trs @ [?t]) @ new"
        "\<forall>t\<in>set new. trade_price t = lp \<and> incoming_id sd t = orderID w
            \<and> resting_id sd t \<in> oid (fill_engine s h) ` set hs"
        "rem' = rem - open_qty s h - sum_list (map trade_quantity new)"
      by blast
    have "trs' = trs @ (?t # new)"
      using new(1) by simp
    moreover have "\<forall>t\<in>set (?t # new). trade_price t = lp \<and> incoming_id sd t = orderID w
            \<and> resting_id sd t \<in> oid s ` set (h # hs)"
      using new(2) by (auto simp: oid_def [of s h])
    moreover have "rem' = rem - sum_list (map trade_quantity (?t # new))"
      using new(3) by simp
    ultimately show ?thesis by blast
  next
    case part
    let ?t = "made_trade sd clock s w (order_slots s h) lp rem"
    have "trs' = trs @ [?t]" "rem' = 0"
      using part(4) by simp_all
    moreover have "\<forall>t\<in>set [?t]. trade_price t = lp \<and> incoming_id sd t = orderID w
            \<and> resting_id sd t \<in> oid s ` set (h # hs)"
      by (simp add: oid_def [of s h])
    moreover have "(0 :: Quantity) = rem - sum_list (map trade_quantity [?t])"
      by simp
    ultimately show ?thesis by blast
  qed
qed


section \<open>The matching engine: the loops over the levels\<close>

lemma match_level_loop_entries_subset:
  assumes "match_level_loop sd clock w lp hs (s, lvl, rem, trs) = (s', lvl', rem', trs')"
  shows "set (entries lvl') \<subseteq> set (entries lvl)"
  using assms
proof (induction hs arbitrary: s lvl rem trs)
  case Nil
  then show ?case by simp
next
  case (Cons h hs)
  from Cons.prems show ?case
  proof (cases rule: match_level_loop_ConsE)
    case stop
    then show ?thesis by simp
  next
    case fill
    from Cons.IH [OF fill(4)] show ?thesis
      using set_remove1_subset [of h "entries lvl"] by auto
  next
    case part
    then show ?thesis by simp
  qed
qed

lemma match_levelE:
  assumes "match_level sd clock w lvls i (s, rem, trs) = (erased, lvls', s', rem', trs')"
  obtains lvl' where
    "match_level_loop sd clock w (fst (lvls ! i)) (entries (snd (lvls ! i)))
       (s, snd (lvls ! i), rem, trs) = (s', lvl', rem', trs')"
    "erased = level_empty lvl'"
    "lvls' = (if erased then erase_at i lvls else lvls[i := (fst (lvls ! i), lvl')])"
  using assms
  by (auto simp: match_level_def Let_def split: prod.splits if_splits)

lemma set_erase_at: "set (erase_at i xs) \<subseteq> set xs"
  by (auto simp: erase_at_def dest: in_set_takeD in_set_dropD)

lemma match_level_resting_at:
  assumes run: "match_level sd clock w lvls i (s, rem, trs) = (erased, lvls', s', rem', trs')"
    and i: "i < length lvls"
    and r: "resting_at lvls' s' p x"
  shows "resting_at lvls s p x"
proof -
  from run obtain lvl' where
    loop: "match_level_loop sd clock w (fst (lvls ! i)) (entries (snd (lvls ! i)))
       (s, snd (lvls ! i), rem, trs) = (s', lvl', rem', trs')"
    and lvls': "lvls' = (if erased then erase_at i lvls else lvls[i := (fst (lvls ! i), lvl')])"
    by (rule match_levelE)
  from match_level_loop_frame [OF loop] have oid: "oid s' = oid s" by simp
  from match_level_loop_entries_subset [OF loop]
  have sub: "set (entries lvl') \<subseteq> set (entries (snd (lvls ! i)))" by simp
  from r obtain kv h where kv: "kv \<in> set lvls'" "fst kv = p" "h \<in> set (entries (snd kv))"
    "oid s' h = x"
    by (auto simp: resting_at_def)
  show ?thesis
  proof (cases "kv \<in> set lvls")
    case True
    with kv oid show ?thesis by (auto simp: resting_at_def)
  next
    case False
    with kv(1) lvls' have ne: "\<not> erased" and "kv \<in> set (lvls[i := (fst (lvls ! i), lvl')])"
      using set_erase_at [of i lvls] by (auto split: if_splits)
    with False have kveq: "kv = (fst (lvls ! i), lvl')"
      by (auto dest!: set_update_subset_insert [THEN subsetD])
    have "lvls ! i \<in> set lvls" using i by simp
    moreover have "fst (lvls ! i) = p" using kveq kv(2) by simp
    moreover have "h \<in> set (entries (snd (lvls ! i)))" using kveq kv(3) sub by auto
    ultimately show ?thesis using kv(4) oid by (auto simp: resting_at_def)
  qed
qed

lemma matched_simps [simp]:
  "matched [] = 0" "matched (trs @ new) = matched trs + matched new"
  by (simp_all add: matched_def)

lemma match_level_loop_trade_mem:
  assumes "match_level_loop sd clock w lp hs (s, lvl, rem, trs) = (s', lvl', rem', trs')"
    and "t \<in> set trs'"
  shows "t \<in> set trs \<or> (trade_price t = lp \<and> incoming_id sd t = orderID w
            \<and> resting_id sd t \<in> oid s ` set hs)"
  using match_level_loop_trades [OF assms(1)] assms(2) by auto

lemma match_level_loop_matched:
  assumes "match_level_loop sd clock w lp hs (s, lvl, rem, trs) = (s', lvl', rem', trs')"
  shows "rem' + matched trs' = rem + matched trs"
  using match_level_loop_trades [OF assms(1)] by (auto simp: matched_def)

lemma match_level_trade_mem:
  assumes run: "match_level sd clock w lvls i (s, rem, trs) = (erased, lvls', s', rem', trs')"
    and i: "i < length lvls"
    and t: "t \<in> set trs'"
  shows "t \<in> set trs \<or> (trade_price t = fst (lvls ! i) \<and> incoming_id sd t = orderID w
            \<and> resting_at lvls s (trade_price t) (resting_id sd t))"
proof -
  from run obtain lvl' where
    loop: "match_level_loop sd clock w (fst (lvls ! i)) (entries (snd (lvls ! i)))
       (s, snd (lvls ! i), rem, trs) = (s', lvl', rem', trs')"
    by (rule match_levelE)
  have "lvls ! i \<in> set lvls" using i by simp
  then show ?thesis
    using match_level_loop_trade_mem [OF loop t] by (fastforce simp: resting_at_def)
qed

lemma match_level_matched:
  assumes "match_level sd clock w lvls i (s, rem, trs) = (erased, lvls', s', rem', trs')"
  shows "rem' + matched trs' = rem + matched trs"
  using assms by (elim match_levelE) (rule match_level_loop_matched)

lemma match_level_frame:
  assumes "match_level sd clock w lvls i (s, rem, trs) = (erased, lvls', s', rem', trs')"
  shows "ask_levels s' = ask_levels s \<and> bid_levels s' = bid_levels s \<and> oid s' = oid s"
  using assms by (elim match_levelE) (rule match_level_loop_frame)

lemma resting_at_oid_cong:
  "oid s' = oid s \<Longrightarrow> resting_at lvls s' p x = resting_at lvls s p x"
  by (simp add: resting_at_def)

lemma oid_ask_levels_update [simp]: "oid (s\<lparr>ask_levels := l\<rparr>) = oid s"
  by (simp add: oid_def fun_eq_iff)

lemma oid_bid_levels_update [simp]: "oid (s\<lparr>bid_levels := l\<rparr>) = oid s"
  by (simp add: oid_def fun_eq_iff)

lemma match_buy_loop_done:
  "\<not> (i < length (ask_levels s) \<and> fst (ask_levels s ! i) \<le> price w \<and> 0 < rem) \<Longrightarrow>
   match_buy_loop clock w i (s, rem, trs) = (s, rem, trs)"
  by (subst match_buy_loop.simps) auto

lemma match_buy_loop_step:
  "i < length (ask_levels s) \<and> fst (ask_levels s ! i) \<le> price w \<and> 0 < rem \<Longrightarrow>
   match_level Buy clock w (ask_levels s) i (s, rem, trs) = (erased, lvls, s1, rem1, trs1) \<Longrightarrow>
   match_buy_loop clock w i (s, rem, trs) =
     match_buy_loop clock w (if erased then i else i + 1) (s1\<lparr>ask_levels := lvls\<rparr>, rem1, trs1)"
  by (subst match_buy_loop.simps) simp

lemma match_sell_loop_done:
  "\<not> (j < length (bid_levels s)
        \<and> price w \<le> fst (bid_levels s ! (length (bid_levels s) - 1 - j)) \<and> 0 < rem) \<Longrightarrow>
   match_sell_loop clock w j (s, rem, trs) = (s, rem, trs)"
  by (subst match_sell_loop.simps) auto

lemma match_sell_loop_step:
  "j < length (bid_levels s)
     \<and> price w \<le> fst (bid_levels s ! (length (bid_levels s) - 1 - j)) \<and> 0 < rem \<Longrightarrow>
   match_level Sell clock w (bid_levels s) (length (bid_levels s) - 1 - j) (s, rem, trs)
     = (erased, lvls, s1, rem1, trs1) \<Longrightarrow>
   match_sell_loop clock w j (s, rem, trs) =
     match_sell_loop clock w (if erased then 0 else j + 1) (s1\<lparr>bid_levels := lvls\<rparr>, rem1, trs1)"
  by (subst match_sell_loop.simps) simp

lemma match_buy_loop_trades:
  assumes "match_buy_loop clock w i (s, rem, trs) = (s', rem', trs')"
  shows "(\<forall>t\<in>set trs'. t \<in> set trs \<or>
             (incoming_id Buy t = orderID w \<and> trade_price t \<le> price w
              \<and> resting_at (ask_levels s) s (trade_price t) (resting_id Buy t)))
         \<and> rem' + matched trs' = rem + matched trs
         \<and> bid_levels s' = bid_levels s \<and> oid s' = oid s"
  using assms
proof (induction clock w i "(s, rem, trs)" arbitrary: s rem trs rule: match_buy_loop.induct)
  case (1 clock w i)
  show ?case
  proof (cases "i < length (ask_levels s) \<and> fst (ask_levels s ! i) \<le> price w \<and> 0 < rem")
    case False
    from "1.prems" [unfolded match_buy_loop_done [OF False]]
    have "s' = s" "rem' = rem" "trs' = trs"
      by simp_all
    then show ?thesis by simp
  next
    case True
    obtain erased lvls s1 rem1 trs1 where
      ml: "match_level Buy clock w (ask_levels s) i (s, rem, trs) = (erased, lvls, s1, rem1, trs1)"
      by (cases "match_level Buy clock w (ask_levels s) i (s, rem, trs)") auto
    have run: "match_buy_loop clock w (if erased then i else i + 1)
                 (s1\<lparr>ask_levels := lvls\<rparr>, rem1, trs1) = (s', rem', trs')"
      using "1.prems" unfolding match_buy_loop_step [OF True ml] .
    from True have i: "i < length (ask_levels s)" by simp
    note IH = "1.hyps" [OF refl refl True ml [symmetric] refl refl refl run]
    from match_level_frame [OF ml] have fr: "bid_levels s1 = bid_levels s" "oid s1 = oid s"
      by simp_all
    have mem: "t \<in> set trs \<or>
             (incoming_id Buy t = orderID w \<and> trade_price t \<le> price w
              \<and> resting_at (ask_levels s) s (trade_price t) (resting_id Buy t))"
      if t: "t \<in> set trs'" for t
    proof -
      from IH t have "t \<in> set trs1 \<or>
             (incoming_id Buy t = orderID w \<and> trade_price t \<le> price w
              \<and> resting_at lvls s1 (trade_price t) (resting_id Buy t))"
        by (simp add: resting_at_oid_cong [of "s1\<lparr>ask_levels := lvls\<rparr>" s1])
      then show ?thesis
      proof
        assume "t \<in> set trs1"
        from match_level_trade_mem [OF ml i this] True show ?thesis by auto
      next
        assume "incoming_id Buy t = orderID w \<and> trade_price t \<le> price w
              \<and> resting_at lvls s1 (trade_price t) (resting_id Buy t)"
        with match_level_resting_at [OF ml i] show ?thesis by blast
      qed
    qed
    have "rem' + matched trs' = rem + matched trs"
      using IH match_level_matched [OF ml] by simp
    moreover have "bid_levels s' = bid_levels s" "oid s' = oid s"
      using IH fr by simp_all
    ultimately show ?thesis using mem by blast
  qed
qed

lemma match_sell_loop_trades:
  assumes "match_sell_loop clock w j (s, rem, trs) = (s', rem', trs')"
  shows "(\<forall>t\<in>set trs'. t \<in> set trs \<or>
             (incoming_id Sell t = orderID w \<and> price w \<le> trade_price t
              \<and> resting_at (bid_levels s) s (trade_price t) (resting_id Sell t)))
         \<and> rem' + matched trs' = rem + matched trs
         \<and> ask_levels s' = ask_levels s \<and> oid s' = oid s"
  using assms
proof (induction clock w j "(s, rem, trs)" arbitrary: s rem trs rule: match_sell_loop.induct)
  case (1 clock w j)
  let ?i = "length (bid_levels s) - 1 - j"
  show ?case
  proof (cases "j < length (bid_levels s) \<and> price w \<le> fst (bid_levels s ! ?i) \<and> 0 < rem")
    case False
    from "1.prems" [unfolded match_sell_loop_done [OF False]]
    have "s' = s" "rem' = rem" "trs' = trs"
      by simp_all
    then show ?thesis by simp
  next
    case True
    obtain erased lvls s1 rem1 trs1 where
      ml: "match_level Sell clock w (bid_levels s) ?i (s, rem, trs)
             = (erased, lvls, s1, rem1, trs1)"
      by (cases "match_level Sell clock w (bid_levels s) ?i (s, rem, trs)") auto
    have run: "match_sell_loop clock w (if erased then 0 else j + 1)
                 (s1\<lparr>bid_levels := lvls\<rparr>, rem1, trs1) = (s', rem', trs')"
      using "1.prems" unfolding match_sell_loop_step [OF True ml] .
    from True have i: "?i < length (bid_levels s)" by arith
    note IH = "1.hyps" [OF refl refl True ml [symmetric] refl refl refl run]
    from match_level_frame [OF ml] have fr: "ask_levels s1 = ask_levels s" "oid s1 = oid s"
      by simp_all
    have mem: "t \<in> set trs \<or>
             (incoming_id Sell t = orderID w \<and> price w \<le> trade_price t
              \<and> resting_at (bid_levels s) s (trade_price t) (resting_id Sell t))"
      if t: "t \<in> set trs'" for t
    proof -
      from IH t have "t \<in> set trs1 \<or>
             (incoming_id Sell t = orderID w \<and> price w \<le> trade_price t
              \<and> resting_at lvls s1 (trade_price t) (resting_id Sell t))"
        by (simp add: resting_at_oid_cong [of "s1\<lparr>bid_levels := lvls\<rparr>" s1])
      then show ?thesis
      proof
        assume "t \<in> set trs1"
        from match_level_trade_mem [OF ml i this] True show ?thesis by auto
      next
        assume "incoming_id Sell t = orderID w \<and> price w \<le> trade_price t
              \<and> resting_at lvls s1 (trade_price t) (resting_id Sell t)"
        with match_level_resting_at [OF ml i] show ?thesis by blast
      qed
    qed
    have "rem' + matched trs' = rem + matched trs"
      using IH match_level_matched [OF ml] by simp
    moreover have "ask_levels s' = ask_levels s" "oid s' = oid s"
      using IH fr by simp_all
    ultimately show ?thesis using mem by blast
  qed
qed

text \<open>The two match functions and \<open>process_order\<close> in terms of their loops.\<close>

lemma match_buy_orderE:
  assumes "match_buy_order clock s w = (s', r)"
  obtains s1 rem1 where
    "match_buy_loop clock w 0 (s, quantity w, []) = (s1, rem1, trades r)"
    "fully_matched r = (rem1 = 0)"
    "rem1 = 0 \<or> free_list (order_pool s1) = [] \<longrightarrow> s' = s1 \<and> remaining_order r = None"
    "rem1 \<noteq> 0 \<and> free_list (order_pool s1) \<noteq> [] \<longrightarrow>
       remaining_order r = Some (hd (free_list (order_pool s1)))
       \<and> s' = s1\<lparr>order_pool := snd (acquire (order_pool s1)),
                 order_slots := (order_slots s1)(hd (free_list (order_pool s1)) :=
                    w\<lparr>quantity := rem1, status := Incoming\<rparr>)\<rparr>"
proof -
  obtain s1 rem1 trs1 where loop: "match_buy_loop clock w 0 (s, quantity w, []) = (s1, rem1, trs1)"
    by (cases "match_buy_loop clock w 0 (s, quantity w, [])") auto
  show ?thesis
    apply (rule that [of s1 rem1])
    using assms loop
    by (auto simp: match_buy_order_def acquire_def split: if_splits list.splits)
qed

lemma match_sell_orderE:
  assumes "match_sell_order clock s w = (s', r)"
  obtains s1 rem1 where
    "match_sell_loop clock w 0 (s, quantity w, []) = (s1, rem1, trades r)"
    "fully_matched r = (rem1 = 0)"
    "rem1 = 0 \<or> free_list (order_pool s1) = [] \<longrightarrow> s' = s1 \<and> remaining_order r = None"
    "rem1 \<noteq> 0 \<and> free_list (order_pool s1) \<noteq> [] \<longrightarrow>
       remaining_order r = Some (hd (free_list (order_pool s1)))
       \<and> s' = s1\<lparr>order_pool := snd (acquire (order_pool s1)),
                 order_slots := (order_slots s1)(hd (free_list (order_pool s1)) :=
                    w\<lparr>quantity := rem1, status := Incoming\<rparr>)\<rparr>"
proof -
  obtain s1 rem1 trs1 where loop: "match_sell_loop clock w 0 (s, quantity w, []) = (s1, rem1, trs1)"
    by (cases "match_sell_loop clock w 0 (s, quantity w, [])") auto
  show ?thesis
    apply (rule that [of s1 rem1])
    using assms loop
    by (auto simp: match_sell_order_def acquire_def split: if_splits list.splits)
qed

lemma counted_simps [simp]:
  "ask_levels (counted s) = ask_levels s" "bid_levels (counted s) = bid_levels s"
  "order_slots (counted s) = order_slots s" "order_pool (counted s) = order_pool s"
  "order_lookup (counted s) = order_lookup s" "trade_pool (counted s) = trade_pool s"
  "oid (counted s) = oid s"
  by (simp_all add: counted_def oid_def fun_eq_iff)

lemma process_orderE:
  assumes "process_order clock s w = (s', r)"
  obtains s1 where
    "(if side w = Buy then match_buy_order clock (counted s) w
      else match_sell_order clock (counted s) w) = (s1, r)"
    "s' = (case remaining_order r of
             Some entry \<Rightarrow> if \<not> fully_matched r then add_order_to_book s1 entry else s1
           | None \<Rightarrow> s1)"
  using assms
  by (auto simp: process_order_def counted_def Let_def split: prod.splits option.splits if_splits)


section \<open>The matching engine: the remainder of an incoming order\<close>

lemma match_level_loop_order_pool:
  assumes "match_level_loop sd clock w lp hs (s, lvl, rem, trs) = (s', lvl', rem', trs')"
  shows "\<exists>rel. free_list (order_pool s') = rel @ free_list (order_pool s)"
  using assms
proof (induction hs arbitrary: s lvl rem trs)
  case Nil
  then show ?case by simp
next
  case (Cons h hs)
  from Cons.prems show ?case
  proof (cases rule: match_level_loop_ConsE)
    case stop
    then show ?thesis by simp
  next
    case fill
    from Cons.IH [OF fill(4)] obtain rel where
      "free_list (order_pool s') = rel @ free_list (order_pool (fill_engine s h))" ..
    then have "free_list (order_pool s') = (rel @ [h]) @ free_list (order_pool s)"
      by simp
    then show ?thesis ..
  next
    case part
    then show ?thesis by simp
  qed
qed

lemma match_level_order_pool:
  assumes "match_level sd clock w lvls i (s, rem, trs) = (erased, lvls', s', rem', trs')"
  shows "\<exists>rel. free_list (order_pool s') = rel @ free_list (order_pool s)"
  using assms by (elim match_levelE) (rule match_level_loop_order_pool)

lemma order_pool_ask_levels_update [simp]: "order_pool (s\<lparr>ask_levels := l\<rparr>) = order_pool s"
  by simp

lemma match_buy_loop_order_pool:
  assumes "match_buy_loop clock w i (s, rem, trs) = (s', rem', trs')"
  shows "\<exists>rel. free_list (order_pool s') = rel @ free_list (order_pool s)"
  using assms
proof (induction clock w i "(s, rem, trs)" arbitrary: s rem trs rule: match_buy_loop.induct)
  case (1 clock w i)
  show ?case
  proof (cases "i < length (ask_levels s) \<and> fst (ask_levels s ! i) \<le> price w \<and> 0 < rem")
    case False
    from "1.prems" [unfolded match_buy_loop_done [OF False]] show ?thesis by simp
  next
    case True
    obtain erased lvls s1 rem1 trs1 where
      ml: "match_level Buy clock w (ask_levels s) i (s, rem, trs) = (erased, lvls, s1, rem1, trs1)"
      by (cases "match_level Buy clock w (ask_levels s) i (s, rem, trs)") auto
    have run: "match_buy_loop clock w (if erased then i else i + 1)
                 (s1\<lparr>ask_levels := lvls\<rparr>, rem1, trs1) = (s', rem', trs')"
      using "1.prems" unfolding match_buy_loop_step [OF True ml] .
    from "1.hyps" [OF refl refl True ml [symmetric] refl refl refl run] obtain rel2 where
      "free_list (order_pool s') = rel2 @ free_list (order_pool s1)" by auto
    moreover from match_level_order_pool [OF ml] obtain rel1 where
      "free_list (order_pool s1) = rel1 @ free_list (order_pool s)" ..
    ultimately have "free_list (order_pool s') = (rel2 @ rel1) @ free_list (order_pool s)"
      by simp
    then show ?thesis ..
  qed
qed

lemma match_sell_loop_order_pool:
  assumes "match_sell_loop clock w j (s, rem, trs) = (s', rem', trs')"
  shows "\<exists>rel. free_list (order_pool s') = rel @ free_list (order_pool s)"
  using assms
proof (induction clock w j "(s, rem, trs)" arbitrary: s rem trs rule: match_sell_loop.induct)
  case (1 clock w j)
  let ?i = "length (bid_levels s) - 1 - j"
  show ?case
  proof (cases "j < length (bid_levels s) \<and> price w \<le> fst (bid_levels s ! ?i) \<and> 0 < rem")
    case False
    from "1.prems" [unfolded match_sell_loop_done [OF False]] show ?thesis by simp
  next
    case True
    obtain erased lvls s1 rem1 trs1 where
      ml: "match_level Sell clock w (bid_levels s) ?i (s, rem, trs)
             = (erased, lvls, s1, rem1, trs1)"
      by (cases "match_level Sell clock w (bid_levels s) ?i (s, rem, trs)") auto
    have run: "match_sell_loop clock w (if erased then 0 else j + 1)
                 (s1\<lparr>bid_levels := lvls\<rparr>, rem1, trs1) = (s', rem', trs')"
      using "1.prems" unfolding match_sell_loop_step [OF True ml] .
    from "1.hyps" [OF refl refl True ml [symmetric] refl refl refl run] obtain rel2 where
      "free_list (order_pool s') = rel2 @ free_list (order_pool s1)" by auto
    moreover from match_level_order_pool [OF ml] obtain rel1 where
      "free_list (order_pool s1) = rel1 @ free_list (order_pool s)" ..
    ultimately have "free_list (order_pool s') = (rel2 @ rel1) @ free_list (order_pool s)"
      by simp
    then show ?thesis ..
  qed
qed

text \<open>The \<open>std::map\<close> operations.\<close>

lemma map_find_map_put: "map_find (map_put k v m) k = Some v"
  by (induction m) (auto simp: map_find_def)

lemma map_find_map_assign:
  "map_find m k = Some v0 \<Longrightarrow> map_find (map_assign k v m) k = Some v"
  by (induction m) (auto simp: map_find_def map_assign_def split: if_splits)

text \<open>\<open>add_order_to_book\<close> puts the entry at the tail of the level at its price.\<close>

lemma add_order_to_book_rests:
  assumes "s' = add_order_to_book s entry"
  shows "order_lookup s' (oid s entry) = Some entry
         \<and> order_slots s' = order_slots s
         \<and> opp_levels (side (order_slots s entry)) s' = opp_levels (side (order_slots s entry)) s
         \<and> (\<exists>lvl. map_find (own_levels (side (order_slots s entry)) s')
                      (price (order_slots s entry)) = Some lvl
                \<and> entries lvl \<noteq> [] \<and> last (entries lvl) = entry)"
  using assms
  by (cases "side (order_slots s entry)")
     (auto simp: add_order_to_book_def Let_def oid_def own_levels_def opp_levels_def
        map_find_map_put map_find_map_assign add_order_def split: option.splits)

lemma process_order_rests_remainder:
  assumes run: "process_order clock s w = (s', r)"
    and nf: "\<not> fully_matched r"
    and pool: "free_list (order_pool s) \<noteq> []"
  shows "\<exists>h. remaining_order r = Some h
           \<and> order_lookup s' (orderID w) = Some h
           \<and> order_slots s' h = w\<lparr>quantity := quantity w - matched (trades r), status := Incoming\<rparr>
           \<and> (\<exists>lvl. map_find (own_levels (side w) s') (price w) = Some lvl
                  \<and> entries lvl \<noteq> [] \<and> last (entries lvl) = h)"
proof -
  from run obtain s1 where
    m: "(if side w = Buy then match_buy_order clock (counted s) w
         else match_sell_order clock (counted s) w) = (s1, r)"
    and s': "s' = (case remaining_order r of
             Some entry \<Rightarrow> if \<not> fully_matched r then add_order_to_book s1 entry else s1
           | None \<Rightarrow> s1)"
    by (rule process_orderE)
  have "\<exists>s2 rem2. rem2 + matched (trades r) = quantity w
          \<and> free_list (order_pool s2) \<noteq> []
          \<and> fully_matched r = (rem2 = 0)
          \<and> (rem2 \<noteq> 0 \<longrightarrow> free_list (order_pool s2) \<noteq> [] \<longrightarrow>
               remaining_order r = Some (hd (free_list (order_pool s2)))
               \<and> s1 = s2\<lparr>order_pool := snd (acquire (order_pool s2)),
                 order_slots := (order_slots s2)(hd (free_list (order_pool s2)) :=
                    w\<lparr>quantity := rem2, status := Incoming\<rparr>)\<rparr>)"
  proof (cases "side w")
    case Buy
    with m have "match_buy_order clock (counted s) w = (s1, r)" by simp
    then obtain s2 rem2 where
      loop: "match_buy_loop clock w 0 (counted s, quantity w, []) = (s2, rem2, trades r)"
      and rest: "fully_matched r = (rem2 = 0)"
        "rem2 = 0 \<or> free_list (order_pool s2) = [] \<longrightarrow> s1 = s2 \<and> remaining_order r = None"
        "rem2 \<noteq> 0 \<and> free_list (order_pool s2) \<noteq> [] \<longrightarrow>
           remaining_order r = Some (hd (free_list (order_pool s2)))
           \<and> s1 = s2\<lparr>order_pool := snd (acquire (order_pool s2)),
                 order_slots := (order_slots s2)(hd (free_list (order_pool s2)) :=
                    w\<lparr>quantity := rem2, status := Incoming\<rparr>)\<rparr>"
      by (rule match_buy_orderE)
    from match_buy_loop_trades [OF loop] have "rem2 + matched (trades r) = quantity w"
      by simp
    moreover from match_buy_loop_order_pool [OF loop] pool
    have "free_list (order_pool s2) \<noteq> []" by auto
    ultimately show ?thesis using rest by blast
  next
    case Sell
    with m have "match_sell_order clock (counted s) w = (s1, r)" by simp
    then obtain s2 rem2 where
      loop: "match_sell_loop clock w 0 (counted s, quantity w, []) = (s2, rem2, trades r)"
      and rest: "fully_matched r = (rem2 = 0)"
        "rem2 = 0 \<or> free_list (order_pool s2) = [] \<longrightarrow> s1 = s2 \<and> remaining_order r = None"
        "rem2 \<noteq> 0 \<and> free_list (order_pool s2) \<noteq> [] \<longrightarrow>
           remaining_order r = Some (hd (free_list (order_pool s2)))
           \<and> s1 = s2\<lparr>order_pool := snd (acquire (order_pool s2)),
                 order_slots := (order_slots s2)(hd (free_list (order_pool s2)) :=
                    w\<lparr>quantity := rem2, status := Incoming\<rparr>)\<rparr>"
      by (rule match_sell_orderE)
    from match_sell_loop_trades [OF loop] have "rem2 + matched (trades r) = quantity w"
      by simp
    moreover from match_sell_loop_order_pool [OF loop] pool
    have "free_list (order_pool s2) \<noteq> []" by auto
    ultimately show ?thesis using rest by blast
  qed
  then obtain s2 rem2 where
    rem2: "rem2 + matched (trades r) = quantity w" "rem2 \<noteq> 0"
    and ro: "remaining_order r = Some (hd (free_list (order_pool s2)))"
    and s1: "s1 = s2\<lparr>order_pool := snd (acquire (order_pool s2)),
                 order_slots := (order_slots s2)(hd (free_list (order_pool s2)) :=
                    w\<lparr>quantity := rem2, status := Incoming\<rparr>)\<rparr>"
    using nf by auto
  let ?h = "hd (free_list (order_pool s2))"
  from rem2(1) have q: "rem2 = quantity w - matched (trades r)"
    by (metis add_diff_cancel_right')
  have slot: "order_slots s1 ?h = w\<lparr>quantity := rem2, status := Incoming\<rparr>"
    using s1 by simp
  from s' ro nf have "s' = add_order_to_book s1 ?h" by simp
  from add_order_to_book_rests [OF this] slot q ro show ?thesis
    by (auto simp: oid_def)
qed


section \<open>The matching engine: time in force and order type\<close>













section \<open>The matching engine: what one order does to the resting orders\<close>

text \<open>
  A sweep is the run of one outer loop, \<open>match_buy_loop\<close> or \<open>match_sell_loop\<close>. The
  lemmas of this section follow the entries of the swept side through the inner loop, one
  level visit and the whole sweep.
\<close>

lemma thinned_refl [simp]: "thinned xs xs"
  unfolding thinned_def by (rule exI [of _ "\<lambda>x. True"]) simp





lemma thinned_Nil [simp]: "thinned [] xs"
  unfolding thinned_def by (rule exI [of _ "\<lambda>x. False"]) simp



lemma unat_minus_one_word: "c \<noteq> 0 \<Longrightarrow> unat (c - 1 :: 'a::len word) = unat c - 1"
  by (simp add: unat_minus_one)







lemma book_entries_Cons [simp]:
  "book_entries (kv # lvls) = entries (snd kv) @ book_entries lvls"
  by (simp add: book_entries_def)

lemma book_entries_Nil [simp]: "book_entries [] = []"
  by (simp add: book_entries_def)












lemma sweep_inv_levels_update [simp]:
  "sweep_inv sd lvls0 s0 lvls (s\<lparr>ask_levels := l\<rparr>) trs = sweep_inv sd lvls0 s0 lvls s trs"
  "sweep_inv sd lvls0 s0 lvls (s\<lparr>bid_levels := l\<rparr>) trs = sweep_inv sd lvls0 s0 lvls s trs"
  by (simp_all add: sweep_inv_def conserved_def open_qty_def)




lemma volume_simps [simp]:
  "volume [] = 0" "volume (trs @ new) = volume trs + volume new"
  "volume (t # trs) = unat (trade_quantity t) + volume trs"
  by (simp_all add: volume_def)







section \<open>The matching engine: the first trade of a sweep\<close>









section \<open>The matching engine: trade prices\<close>

text \<open>
  Claim C1: every trade that \<open>process_order\<close> emits for an incoming order carries the
  id of the incoming order on its own side, and its price is the key of a level of the
  opposite side, as the book stood before the call, in which an order with the other
  id of the trade rests. The price does not violate the limit of the incoming order: it
  is at most the limit of an incoming buy and at least the limit of an incoming sell.
\<close>

theorem process_order_trade_price:
  assumes run: "process_order clock s incoming = (s', r)" and t: "t \<in> set (trades r)"
  shows "incoming_id (side incoming) t = orderID incoming
         \<and> resting_at (opp_levels (side incoming) s) s (trade_price t)
              (resting_id (side incoming) t)
         \<and> (side incoming = Buy \<longrightarrow> trade_price t \<le> price incoming)
         \<and> (side incoming = Sell \<longrightarrow> price incoming \<le> trade_price t)"
proof (cases "side incoming")
  case Buy
  from run Buy obtain s1 where "match_buy_order clock (counted s) incoming = (s1, r)"
    by (auto elim: process_orderE)
  then obtain s2 rem2 where
    "match_buy_loop clock incoming 0 (counted s, quantity incoming, []) = (s2, rem2, trades r)"
    by (rule match_buy_orderE)
  from match_buy_loop_trades [OF this] t Buy show ?thesis
    by (auto simp: opp_levels_def resting_at_oid_cong [of "counted s" s])
next
  case Sell
  from run Sell obtain s1 where "match_sell_order clock (counted s) incoming = (s1, r)"
    by (auto elim: process_orderE)
  then obtain s2 rem2 where
    "match_sell_loop clock incoming 0 (counted s, quantity incoming, []) = (s2, rem2, trades r)"
    by (rule match_sell_orderE)
  from match_sell_loop_trades [OF this] t Sell show ?thesis
    by (auto simp: opp_levels_def resting_at_oid_cong [of "counted s" s])
qed

theorem process_order_trade_price_witness:
  "hd (trades (snd (process_order zero_clock book_S1 order_S2)))
     \<in> set (trades (snd (process_order zero_clock book_S1 order_S2)))
   \<and> side order_S2 = Buy
   \<and> trade_price (hd (trades (snd (process_order zero_clock book_S1 order_S2)))) = 10100
   \<and> trade_price (hd (trades (snd (process_order zero_clock book_S1 order_S2))))
       \<le> price order_S2
   \<and> resting_at (ask_levels book_S1) book_S1 10100 1
   \<and> hd (trades (snd (process_order zero_clock book_S6 order_sell_50)))
     \<in> set (trades (snd (process_order zero_clock book_S6 order_sell_50)))
   \<and> side order_sell_50 = Sell
   \<and> price order_sell_50
       \<le> trade_price (hd (trades (snd (process_order zero_clock book_S6 order_sell_50))))"
proof -
  let ?r = "process_order zero_clock book_S1 order_S2"
  let ?q = "process_order zero_clock book_S6 order_sell_50"
  have run: "?r = (fst ?r, snd ?r)" and run': "?q = (fst ?q, snd ?q)"
    by simp_all
  have t: "hd (trades (snd ?r)) \<in> set (trades (snd ?r))"
    by code_simp
  have t': "hd (trades (snd ?q)) \<in> set (trades (snd ?q))"
    by code_simp
  have sd: "side order_S2 = Buy" "side order_sell_50 = Sell"
    by (simp_all add: order_S2_def order_sell_50_def limit_order_def)
  have p: "trade_price (hd (trades (snd ?r))) = 10100"
    "resting_id Buy (hd (trades (snd ?r))) = 1"
    by code_simp+
  show ?thesis
    using process_order_trade_price [OF run t] process_order_trade_price [OF run' t']
      t t' sd p
    by (simp add: opp_levels_def)
qed


section \<open>The matching engine: what happens to a remainder\<close>







text \<open>
  Claim C5, as stated: the rested remainder of a partially matched Day or GTC limit
  order has the status \<open>PartiallyFilled\<close>. It fails in scenario S2: after the trade of
  100, order 2 rests as a bid at 10100 with the remaining 50, but with the status
  \<open>Incoming\<close> that \<open>match_buy_order\<close> assigns to every remainder.
\<close>

theorem S2_remainder_status:
  "orderType order_S2 = Limit \<and> TimeInForce order_S2 = Gtc
   \<and> map trade_quantity (trades (snd (process_order zero_clock book_S1 order_S2))) = [100]
   \<and> map fst (bid_levels (fst (process_order zero_clock book_S1 order_S2))) = [10100]
   \<and> order_lookup (fst (process_order zero_clock book_S1 order_S2)) 2 = Some 0
   \<and> quantity (order_slots (fst (process_order zero_clock book_S1 order_S2)) 0) = 50
   \<and> status (order_slots (fst (process_order zero_clock book_S1 order_S2)) 0) = Incoming
   \<and> status (order_slots (fst (process_order zero_clock book_S1 order_S2)) 0) \<noteq> PartiallyFilled"
  by code_simp

text \<open>
  Claim C5, amended: when a Day or GTC limit order is not fully matched and the order
  pool has a free entry, the remainder is rested at the tail of the level at the order's
  limit price on the order's own side and is added to \<open>order_lookup\<close> under its id. The
  rested entry is the incoming order with \<open>quantity\<close> set to the incoming quantity less
  the quantity of the emitted trades and with the status \<open>Incoming\<close>; its
  \<open>filledQuantity\<close> is that of the incoming order.
\<close>

theorem limit_remainder_rests:
  assumes "process_order clock s w = (s', r)"
    and "orderType w = Limit"
    and "TimeInForce w = Day \<or> TimeInForce w = Gtc"
    and "\<not> fully_matched r"
    and "free_list (order_pool s) \<noteq> []"
  shows "\<exists>h. remaining_order r = Some h
           \<and> order_lookup s' (orderID w) = Some h
           \<and> order_slots s' h
                = w\<lparr>quantity := quantity w - matched (trades r), status := Incoming\<rparr>
           \<and> status (order_slots s' h) = Incoming
           \<and> filledQuantity (order_slots s' h) = filledQuantity w
           \<and> (\<exists>lvl. map_find (own_levels (side w) s') (price w) = Some lvl
                  \<and> entries lvl \<noteq> [] \<and> last (entries lvl) = h)"
  using process_order_rests_remainder [OF assms(1,4,5)] by auto

theorem limit_remainder_rests_witness:
  "orderType order_S2 = Limit
   \<and> (TimeInForce order_S2 = Day \<or> TimeInForce order_S2 = Gtc)
   \<and> \<not> fully_matched (snd (process_order zero_clock book_S1 order_S2))
   \<and> free_list (order_pool book_S1) \<noteq> []
   \<and> quantity order_S2 - matched (trades (snd (process_order zero_clock book_S1 order_S2))) = 50
   \<and> (\<exists>h. remaining_order (snd (process_order zero_clock book_S1 order_S2)) = Some h
           \<and> order_lookup (fst (process_order zero_clock book_S1 order_S2)) (orderID order_S2)
                = Some h
           \<and> order_slots (fst (process_order zero_clock book_S1 order_S2)) h
                = order_S2\<lparr>quantity := 50, status := Incoming\<rparr>
           \<and> (\<exists>lvl. map_find (own_levels (side order_S2)
                                 (fst (process_order zero_clock book_S1 order_S2)))
                        (price order_S2) = Some lvl
                  \<and> entries lvl \<noteq> [] \<and> last (entries lvl) = h))"
proof -
  let ?q = "process_order zero_clock book_S1 order_S2"
  have run: "?q = (fst ?q, snd ?q)" by simp
  have ty: "orderType order_S2 = Limit"
    and tif: "TimeInForce order_S2 = Day \<or> TimeInForce order_S2 = Gtc"
    by (simp_all add: order_S2_def limit_order_def)
  have nf: "\<not> fully_matched (snd ?q)" by code_simp
  have pool: "free_list (order_pool book_S1) \<noteq> []" by code_simp
  have m: "quantity order_S2 - matched (trades (snd ?q)) = 50" by code_simp
  show ?thesis
    using limit_remainder_rests [OF run ty tif nf pool] ty tif nf pool m by auto
qed


section \<open>The matching engine: time priority within a level\<close>




section \<open>The matching engine: conservation of quantity\<close>





end
